theory Spec2Isabelle
  imports Complex_Main "HOL-Library.Product_Lexorder" "HOL-Library.Monad_Syntax"
begin

section \<open>surf\_scrap: the extraction and normalisation pipeline\<close>

text \<open>
  A shallow embedding of \<^verbatim>\<open>surf_scrap/__init__.py\<close>. Python strings are lists of
  characters; a character stands for a code point below 256. Python integers are
  \<^typ>\<open>int\<close>. Leading underscores of the private helpers are dropped, since an
  Isabelle name cannot start with one.
\<close>

subsection \<open>Compass mapper\<close>

definition FR_COMPASS_16 :: "string list" where
  "FR_COMPASS_16 =
    [''Nord'', ''Nord Nord Est'', ''Nord Est'', ''Est Nord Est'',
     ''Est'', ''Est Sud Est'', ''Sud Est'', ''Sud Sud Est'',
     ''Sud'', ''Sud Sud Ouest'', ''Sud Ouest'', ''Ouest Sud Ouest'',
     ''Ouest'', ''Ouest Nord Ouest'', ''Nord Ouest'', ''Nord Nord Ouest'']"

text \<open>
  \<^verbatim>\<open>deg = deg % 360; idx = int((deg + 11.25) // 22.5) % 16\<close>.
  Python's \<^verbatim>\<open>%\<close> with a positive modulus is the floor modulus, as \<open>mod\<close> on
  \<^typ>\<open>int\<close>. The float arithmetic is exact here: \<open>deg\<close> is an integer in
  \<open>[0, 360)\<close>, and 11.25 and 22.5 and every intermediate value are binary fractions
  with a few bits, so the rationals compute what the doubles compute.
\<close>

definition compass_idx :: "int \<Rightarrow> int" where
  "compass_idx deg0 =
     (let deg = deg0 mod 360
      in \<lfloor>(rat_of_int deg + 11.25) / 22.5\<rfloor> mod 16)"

definition deg_to_fr_compass :: "int \<Rightarrow> string" where
  "deg_to_fr_compass deg = FR_COMPASS_16 ! nat (compass_idx deg)"

subsection \<open>Errors\<close>

text \<open>
  The exceptions the module can raise or let through, as values. \<open>RequestException\<close>
  is a failure of \<^verbatim>\<open>requests.get\<close> itself, \<open>HTTPError\<close> what
  \<^verbatim>\<open>raise_for_status\<close> raises, \<open>RuntimeError\<close> the module's own data-extraction
  error, \<open>OSError\<close> any failure of the file system calls.
\<close>

datatype error =
    RequestException
  | HTTPError
  | ValueError
  | OverflowError
  | RuntimeError
  | KeyError
  | OSError

subsection \<open>Characters, \<^verbatim>\<open>str.strip\<close>, decimal digits\<close>

text \<open>
  \<^verbatim>\<open>str.isspace\<close> on the code points below 256: tab to carriage return,
  the four separators 0x1C to 0x1F, space, 0x85 and 0xA0. The same set is \<^verbatim>\<open>\s\<close>
  of a \<^verbatim>\<open>str\<close> pattern. The only decimal digits below 256 are \<^verbatim>\<open>0\<close> to \<^verbatim>\<open>9\<close>.
\<close>

definition is_space :: "char \<Rightarrow> bool" where
  "is_space c =
     (let n = (of_char c :: nat)
      in (9 \<le> n \<and> n \<le> 13) \<or> (28 \<le> n \<and> n \<le> 32) \<or> n = 133 \<or> n = 160)"

definition is_digit :: "char \<Rightarrow> bool" where
  "is_digit c = (let n = (of_char c :: nat) in 48 \<le> n \<and> n \<le> 57)"

definition digit_val :: "char \<Rightarrow> nat" where
  "digit_val c = (of_char c :: nat) - 48"

definition strip :: "string \<Rightarrow> string" where
  "strip s = rev (dropWhile is_space (rev (dropWhile is_space s)))"

fun digits_val :: "nat \<Rightarrow> string \<Rightarrow> nat" where
  "digits_val acc [] = acc"
| "digits_val acc (c # cs) = digits_val (10 * acc + digit_val c) cs"

definition digit_char :: "nat \<Rightarrow> char" where
  "digit_char n = char_of (48 + n)"

fun show_nat :: "nat \<Rightarrow> string" where
  "show_nat n = (if n < 10 then [digit_char n] else show_nat (n div 10) @ [digit_char (n mod 10)])"

declare show_nat.simps [simp del]

definition show_int :: "int \<Rightarrow> string" where
  "show_int i = (if i < 0 then CHR ''-'' # show_nat (nat (- i)) else show_nat (nat i))"

subsection \<open>Python floats: \<^verbatim>\<open>float(str)\<close> and \<^verbatim>\<open>int(float)\<close>\<close>

text \<open>
  A double is its sign bit and, when finite, an integer significand \<open>m\<close> and a binary
  exponent \<open>e\<close>: the magnitude is \<open>m * 2 ^ e\<close>. The sign bit is kept apart, so that
  negative zero exists.
\<close>

datatype pyfloat = Finite bool nat int | Infinity bool | NaN

definition float_value :: "pyfloat \<Rightarrow> rat option" where
  "float_value f =
     (case f of
        Finite neg m e \<Rightarrow> Some ((if neg then - 1 else 1) * (of_nat m * 2 powi e))
      | Infinity neg \<Rightarrow> None
      | NaN \<Rightarrow> None)"

fun bit_length :: "nat \<Rightarrow> nat" where
  "bit_length n = (if n = 0 then 0 else Suc (bit_length (n div 2)))"

declare bit_length.simps [simp del]

text \<open>The nearest integer to \<open>p / q\<close>, ties to the even one.\<close>

definition round_half_even :: "nat \<Rightarrow> nat \<Rightarrow> nat" where
  "round_half_even p q =
     (let d = p div q; r = p mod q
      in if 2 * r < q then d
         else if q < 2 * r then d + 1
         else if even d then d else d + 1)"

text \<open>For positive \<open>p\<close> and \<open>q\<close>, the \<open>b\<close> with \<open>2 ^ b \<le> p / q < 2 ^ (b + 1)\<close>.\<close>

definition floor_log2 :: "nat \<Rightarrow> nat \<Rightarrow> int" where
  "floor_log2 p q =
     (let b0 = int (bit_length p) - int (bit_length q)
      in if (if 0 \<le> b0 then q * 2 ^ nat b0 \<le> p else q \<le> p * 2 ^ nat (- b0))
         then b0 else b0 - 1)"

text \<open>
  The decimal \<open>M * 10 ^ E\<close> rounded to the nearest binary64 value, ties to even, as the
  correctly rounded \<^verbatim>\<open>strtod\<close> of CPython does: 53 bits of significand, the smallest
  exponent of a unit in the last place is \<open>-1074\<close>, and a rounded magnitude of
  \<open>2 ^ 1024\<close> or more is infinity (\<^verbatim>\<open>float\<close> passes no overflow exception).
\<close>

definition round_double :: "bool \<Rightarrow> nat \<Rightarrow> int \<Rightarrow> pyfloat" where
  "round_double neg M E =
     (let p = (if 0 \<le> E then M * 10 ^ nat E else M);
          q = (if 0 \<le> E then 1 else 10 ^ nat (- E))
      in if p = 0 then Finite neg 0 0
         else
           let b = floor_log2 p q;
               e = max (b - 52) (- 1074);
               m = (if 0 \<le> e then round_half_even p (q * 2 ^ nat e)
                    else round_half_even (p * 2 ^ nat (- e)) q)
           in if 0 \<le> e \<and> 2 ^ 1024 \<le> m * 2 ^ nat e then Infinity neg
              else Finite neg m e)"

text \<open>
  Underscores of a numeric literal (\<^verbatim>\<open>_Py_string_to_number_with_underscores\<close>): one is
  allowed only between two digits; the string without them is parsed.
\<close>

fun strip_underscores :: "char \<Rightarrow> string \<Rightarrow> string option" where
  "strip_underscores prev [] = (if prev = CHR ''_'' then None else Some [])"
| "strip_underscores prev (c # cs) =
     (if c = CHR 0x00 then None
      else if c = CHR ''_'' then
        (if is_digit prev then strip_underscores c cs else None)
      else if prev = CHR ''_'' \<and> \<not> is_digit c then None
      else map_option ((#) c) (strip_underscores c cs))"

definition split_sign :: "string \<Rightarrow> bool \<times> string" where
  "split_sign s =
     (case s of
        [] \<Rightarrow> (False, s)
      | c # r \<Rightarrow>
          if c = CHR ''-'' then (True, r)
          else if c = CHR ''+'' then (False, r)
          else (False, s))"

text \<open>
  The exponent part: nothing, or \<^verbatim>\<open>e\<close> or \<^verbatim>\<open>E\<close>, an optional sign and at least one
  digit, up to the end of the string.
\<close>

definition parse_exponent :: "string \<Rightarrow> int option" where
  "parse_exponent s =
     (case s of
        [] \<Rightarrow> Some 0
      | c # r \<Rightarrow>
          if c = CHR ''e'' \<or> c = CHR ''E'' then
            (let (neg, ds) = split_sign r
             in if ds \<noteq> [] \<and> list_all is_digit ds
                then Some (if neg then - int (digits_val 0 ds) else int (digits_val 0 ds))
                else None)
          else None)"

text \<open>
  A decimal literal: sign, digits, an optional point and digits, with a digit on one side
  of the point at least, and the exponent part. The result is the sign, the digits read as
  one number and the power of ten that scales it.
\<close>

definition parse_decimal :: "string \<Rightarrow> (bool \<times> nat \<times> int) option" where
  "parse_decimal s =
     (let (neg, s1) = split_sign s;
          ip = takeWhile is_digit s1;
          s2 = dropWhile is_digit s1;
          (fp, s3) = (case s2 of
                        [] \<Rightarrow> ([], s2)
                      | c # r \<Rightarrow>
                          if c = CHR ''.'' then (takeWhile is_digit r, dropWhile is_digit r)
                          else ([], s2))
      in if ip = [] \<and> fp = [] then None
         else (case parse_exponent s3 of
                 None \<Rightarrow> None
               | Some ex \<Rightarrow> Some (neg, digits_val 0 (ip @ fp), ex - int (length fp))))"

definition ascii_lower :: "char \<Rightarrow> char" where
  "ascii_lower c =
     (let n = (of_char c :: nat) in if 65 \<le> n \<and> n \<le> 90 then char_of (n + 32) else c)"

definition parse_inf_or_nan :: "string \<Rightarrow> pyfloat option" where
  "parse_inf_or_nan s =
     (let (neg, s1) = split_sign s; l = map ascii_lower s1
      in if l = ''inf'' \<or> l = ''infinity'' then Some (Infinity neg)
         else if l = ''nan'' then Some NaN
         else None)"

text \<open>
  \<^verbatim>\<open>float(x)\<close> for a string: surrounding whitespace is dropped, underscores are
  checked and removed, the decimal literal is read and rounded; a string that is no
  decimal literal may still be an infinity or a NaN; anything else is a ValueError.
\<close>

definition py_float :: "string \<Rightarrow> error + pyfloat" where
  "py_float x =
     (let t = strip x;
          u = (if CHR ''_'' \<in> set t then strip_underscores (CHR 0x00) t else Some t)
      in case u of
           None \<Rightarrow> Inl ValueError
         | Some w \<Rightarrow>
             (case parse_decimal w of
                Some (neg, M, E) \<Rightarrow> Inr (round_double neg M E)
              | None \<Rightarrow>
                  (case parse_inf_or_nan w of
                     Some f \<Rightarrow> Inr f
                   | None \<Rightarrow> Inl ValueError)))"

text \<open>
  \<^verbatim>\<open>int(f)\<close> for a float: the magnitude loses its fractional part and the sign is put
  back (\<^verbatim>\<open>PyLong_FromDouble\<close>); an infinity is an OverflowError, a NaN a ValueError.
\<close>

definition py_int_of_float :: "pyfloat \<Rightarrow> error + int" where
  "py_int_of_float f =
     (case f of
        Finite neg m e \<Rightarrow>
          (let mag = (if 0 \<le> e then int m * 2 ^ nat e else int m div 2 ^ nat (- e))
           in Inr (if neg then - mag else mag))
      | Infinity neg \<Rightarrow> Inl OverflowError
      | NaN \<Rightarrow> Inl ValueError)"

subsection \<open>Field coercions\<close>

text \<open>
  \<^verbatim>\<open>try: ... except ValueError: return None\<close>: a ValueError becomes the absent value,
  every other exception goes on to the caller.
\<close>

definition except_ValueError :: "error + 'a \<Rightarrow> error + 'a option" where
  "except_ValueError r =
     (case r of
        Inl e \<Rightarrow> if e = ValueError then Inr None else Inl e
      | Inr v \<Rightarrow> Inr (Some v))"

definition safe_float :: "string option \<Rightarrow> error + pyfloat option" where
  "safe_float x =
     (case x of
        None \<Rightarrow> Inr None
      | Some x0 \<Rightarrow>
          (let x1 = strip x0
           in if x1 = [] \<or> x1 = ''-'' then Inr None
              else except_ValueError (py_float x1)))"

definition safe_int :: "string option \<Rightarrow> error + int option" where
  "safe_int x =
     (case x of
        None \<Rightarrow> Inr None
      | Some x0 \<Rightarrow>
          (let x1 = strip x0
           in if x1 = [] \<or> x1 = ''-'' then Inr None
              else except_ValueError
                     (case py_float x1 of
                        Inl e \<Rightarrow> Inl e
                      | Inr f \<Rightarrow> py_int_of_float f)))"

subsection \<open>Dates and times\<close>

text \<open>
  A naive \<^verbatim>\<open>datetime\<close> without microseconds (the format read has none). The
  calendar functions are those of the \<^verbatim>\<open>datetime\<close> module.
\<close>

record datetime =
  dt_year :: nat
  dt_month :: nat
  dt_day :: nat
  dt_hour :: nat
  dt_minute :: nat
  dt_second :: nat

definition is_leap :: "nat \<Rightarrow> bool" where
  "is_leap y = (y mod 4 = 0 \<and> (y mod 100 \<noteq> 0 \<or> y mod 400 = 0))"

definition DAYS_IN_MONTH :: "nat list" where
  "DAYS_IN_MONTH = [0, 31, 28, 31, 30, 31, 30, 31, 31, 30, 31, 30, 31]"

definition DAYS_BEFORE_MONTH :: "nat list" where
  "DAYS_BEFORE_MONTH = [0, 0, 31, 59, 90, 120, 151, 181, 212, 243, 273, 304, 334]"

definition days_in_month :: "nat \<Rightarrow> nat \<Rightarrow> nat" where
  "days_in_month y m = (if m = 2 \<and> is_leap y then 29 else DAYS_IN_MONTH ! m)"

definition days_before_year :: "nat \<Rightarrow> nat" where
  "days_before_year y =
     (let y1 = y - 1 in y1 * 365 + y1 div 4 - y1 div 100 + y1 div 400)"

definition days_before_month :: "nat \<Rightarrow> nat \<Rightarrow> nat" where
  "days_before_month y m = DAYS_BEFORE_MONTH ! m + (if 2 < m \<and> is_leap y then 1 else 0)"

definition toordinal :: "datetime \<Rightarrow> nat" where
  "toordinal d = days_before_year (dt_year d) + days_before_month (dt_year d) (dt_month d) + dt_day d"

text \<open>Monday is 0.\<close>

definition weekday :: "datetime \<Rightarrow> nat" where
  "weekday d = (toordinal d + 6) mod 7"

text \<open>
  \<^verbatim>\<open>datetime.strptime(s, "%Y-%m-%d %H:%M:%S")\<close> on the strings the entry pattern captures:
  four digits, two, two, a space, two, two and two, with their separators. On that shape it
  returns the date exactly when the fields are a real calendar date and time of day, and
  raises ValueError otherwise (year 0, month 13, 30 February, hour 24, second 60).
\<close>

definition strptime :: "string \<Rightarrow> error + datetime" where
  "strptime s =
     (let ys = take 4 s; ms = take 2 (drop 5 s); ds = take 2 (drop 8 s);
          Hs = take 2 (drop 11 s); Ms = take 2 (drop 14 s); Ss = take 2 (drop 17 s)
      in if length s = 19 \<and> s ! 4 = CHR ''-'' \<and> s ! 7 = CHR ''-'' \<and> s ! 10 = CHR '' ''
            \<and> s ! 13 = CHR '':'' \<and> s ! 16 = CHR '':''
            \<and> list_all is_digit (ys @ ms @ ds @ Hs @ Ms @ Ss)
         then
           (let y = digits_val 0 ys; m = digits_val 0 ms; d = digits_val 0 ds;
                H = digits_val 0 Hs; M = digits_val 0 Ms; S = digits_val 0 Ss
            in if 1 \<le> y \<and> 1 \<le> m \<and> m \<le> 12 \<and> 1 \<le> d \<and> d \<le> days_in_month y m
                  \<and> H \<le> 23 \<and> M \<le> 59 \<and> S \<le> 59
               then Inr \<lparr>dt_year = y, dt_month = m, dt_day = d,
                         dt_hour = H, dt_minute = M, dt_second = S\<rparr>
               else Inl ValueError)
         else Inl ValueError)"

definition zero_pad :: "nat \<Rightarrow> nat \<Rightarrow> string" where
  "zero_pad width n = replicate (width - length (show_nat n)) (CHR ''0'') @ show_nat n"

text \<open>\<^verbatim>\<open>strftime("%H:%M")\<close> and \<^verbatim>\<open>strftime("%Y-%m-%d")\<close> (the year on four digits).\<close>

definition strftime_HM :: "datetime \<Rightarrow> string" where
  "strftime_HM d = zero_pad 2 (dt_hour d) @ '':'' @ zero_pad 2 (dt_minute d)"

definition strftime_Ymd :: "datetime \<Rightarrow> string" where
  "strftime_Ymd d =
     zero_pad 4 (dt_year d) @ ''-'' @ zero_pad 2 (dt_month d) @ ''-'' @ zero_pad 2 (dt_day d)"

text \<open>
  Datetimes compare field by field, from the year down to the second: the order of the
  tuples.
\<close>

definition dt_key :: "datetime \<Rightarrow> nat \<times> nat \<times> nat \<times> nat \<times> nat \<times> nat" where
  "dt_key d = (dt_year d, dt_month d, dt_day d, dt_hour d, dt_minute d, dt_second d)"

definition FR_WEEKDAYS :: "string list" where
  "FR_WEEKDAYS =
     [''Lundi'', ''Mardi'', ''Mercredi'', ''Jeudi'', ''Vendredi'', ''Samedi'', ''Dimanche'']"

text \<open>The accented letters are the code points 0xE9 (e acute) and 0xFB (u circumflex).\<close>

definition FR_MONTHS :: "string list" where
  "FR_MONTHS =
     [''Janvier'', ''F'' @ [CHR 0xE9] @ ''vrier'', ''Mars'', ''Avril'', ''Mai'', ''Juin'',
      ''Juillet'', ''Ao'' @ [CHR 0xFB] @ ''t'', ''Septembre'', ''Octobre'', ''Novembre'',
      ''D'' @ [CHR 0xE9] @ ''cembre'']"

definition format_fr_date :: "datetime \<Rightarrow> string" where
  "format_fr_date d =
     FR_WEEKDAYS ! weekday d @ '' '' @ show_nat (dt_day d) @ '' '' @ FR_MONTHS ! (dt_month d - 1)"

subsection \<open>The two patterns\<close>

text \<open>
  Each pattern is matched by a function that reads it from left to right. In both, a
  starred class is followed by a character outside the class, so the greedy match of the
  class is the only one that can go on; the one place where the engine has to go back is
  the body of an entry, treated below.
\<close>

fun match_lit :: "string \<Rightarrow> string \<Rightarrow> string option" where
  "match_lit [] s = Some s"
| "match_lit (p # ps) [] = None"
| "match_lit (p # ps) (c # cs) = (if p = c then match_lit ps cs else None)"

definition skip_ws :: "string \<Rightarrow> string" where
  "skip_ws s = dropWhile is_space s"

text \<open>\<^verbatim>\<open>\d+\<close>: one digit at least, then all that follow.\<close>

definition match_digits :: "string \<Rightarrow> string option" where
  "match_digits s =
     (case s of
        [] \<Rightarrow> None
      | c # r \<Rightarrow> if is_digit c then Some (dropWhile is_digit r) else None)"

text \<open>\<^verbatim>\<open>\d{n}\<close>: the digits and the rest.\<close>

definition match_ndigits :: "nat \<Rightarrow> string \<Rightarrow> (string \<times> string) option" where
  "match_ndigits n s =
     (if n \<le> length s \<and> list_all is_digit (take n s) then Some (take n s, drop n s) else None)"

definition dquote :: char where
  "dquote = CHR 0x22"

definition newline :: char where
  "newline = CHR 0x0A"

text \<open>
  \<^verbatim>\<open>\["FIELD"\]\s*=>\s*string\(\d+\)\s*"([^"]*)"\<close> at the head of the text; the result is
  group 1. The field names the module asks for are alphanumeric, so \<^verbatim>\<open>re.escape\<close>
  leaves them as they are.
\<close>

definition match_field :: "string \<Rightarrow> string \<Rightarrow> string option" where
  "match_field field s =
     do {
       s1 \<leftarrow> match_lit (''['' @ [dquote] @ field @ [dquote] @ '']'') s;
       s2 \<leftarrow> match_lit ''=>'' (skip_ws s1);
       s3 \<leftarrow> match_lit ''string('' (skip_ws s2);
       s4 \<leftarrow> match_digits s3;
       s5 \<leftarrow> match_lit '')'' s4;
       s6 \<leftarrow> match_lit [dquote] (skip_ws s5);
       s7 \<leftarrow> match_lit [dquote] (dropWhile (\<lambda>c. c \<noteq> dquote) s6);
       Some (takeWhile (\<lambda>c. c \<noteq> dquote) s6)
     }"

text \<open>\<^verbatim>\<open>re.search\<close>: the match at the leftmost position that has one.\<close>

fun extract_phpdump_string :: "string \<Rightarrow> string \<Rightarrow> string option" where
  "extract_phpdump_string [] field = match_field field []"
| "extract_phpdump_string (c # cs) field =
     (case match_field field (c # cs) of
        Some v \<Rightarrow> Some v
      | None \<Rightarrow> extract_phpdump_string cs field)"

text \<open>\<^verbatim>\<open>\n\s*\}\<close> at the head of the text; the result is the text after the brace.\<close>

definition match_close :: "string \<Rightarrow> string option" where
  "match_close s = do { s1 \<leftarrow> match_lit [newline] s; match_lit ''}'' (skip_ws s1) }"

text \<open>
  The lazy body \<^verbatim>\<open>(.*?)\<close> under \<^verbatim>\<open>re.S\<close>: the shortest body after which the closing
  part matches.
\<close>

fun find_close :: "string \<Rightarrow> string \<Rightarrow> (string \<times> string) option" where
  "find_close body [] = None"
| "find_close body (c # cs) =
     (case match_close (c # cs) of
        Some r \<Rightarrow> Some (body, r)
      | None \<Rightarrow> find_close (body @ [c]) cs)"

text \<open>
  \<^verbatim>\<open>\s*(?P<body>.*?)\n\s*\}\<close> after the opening brace. The greedy \<^verbatim>\<open>\s*\<close> first takes
  the whole run of whitespace and the body is looked for after it. Only when no body is
  found there does the engine give whitespace back: a closing part can then only begin at
  a newline inside the run and end at a brace right after the run, and the body is empty.
\<close>

definition match_body :: "string \<Rightarrow> (string \<times> string) option" where
  "match_body s =
     (let W = takeWhile is_space s; t = dropWhile is_space s
      in case find_close [] t of
           Some br \<Rightarrow> Some br
         | None \<Rightarrow>
             (case t of
                [] \<Rightarrow> None
              | d # r \<Rightarrow> if d = CHR ''}'' \<and> newline \<in> set W then Some ([], r) else None))"

text \<open>
  The entry pattern at the head of the text: the timestamp, the body and the text after
  the match.
\<close>

definition match_entry :: "string \<Rightarrow> (string \<times> string \<times> string) option" where
  "match_entry s =
     do {
       s1 \<leftarrow> match_lit (''['' @ [dquote]) s;
       (Y, s2) \<leftarrow> match_ndigits 4 s1;
       s3 \<leftarrow> match_lit ''-'' s2;
       (m, s4) \<leftarrow> match_ndigits 2 s3;
       s5 \<leftarrow> match_lit ''-'' s4;
       (d, s6) \<leftarrow> match_ndigits 2 s5;
       s7 \<leftarrow> match_lit '' '' s6;
       (H, s8) \<leftarrow> match_ndigits 2 s7;
       s9 \<leftarrow> match_lit '':'' s8;
       (M, s10) \<leftarrow> match_ndigits 2 s9;
       s11 \<leftarrow> match_lit '':'' s10;
       (S, s12) \<leftarrow> match_ndigits 2 s11;
       s13 \<leftarrow> match_lit ([dquote] @ '']'') s12;
       s14 \<leftarrow> match_lit ''=>'' (skip_ws s13);
       s15 \<leftarrow> match_lit ''object(stdClass)#'' (skip_ws s14);
       s16 \<leftarrow> match_digits s15;
       s17 \<leftarrow> match_lit ''('' (skip_ws s16);
       s18 \<leftarrow> match_digits s17;
       s19 \<leftarrow> match_lit '')'' s18;
       s20 \<leftarrow> match_lit ''{'' (skip_ws s19);
       (body, rest) \<leftarrow> match_body s20;
       Some (Y @ ''-'' @ m @ ''-'' @ d @ '' '' @ H @ '':'' @ M @ '':'' @ S, body, rest)
     }"

text \<open>
  \<^verbatim>\<open>finditer\<close>: the matches from left to right, the search going on where the last
  match ended. The first argument counts the characters of a match still to be passed.
\<close>

fun finditer :: "nat \<Rightarrow> string \<Rightarrow> (string \<times> string) list" where
  "finditer n [] = []"
| "finditer (Suc n) (c # cs) = finditer n cs"
| "finditer 0 (c # cs) =
     (case match_entry (c # cs) of
        None \<Rightarrow> finditer 0 cs
      | Some (dt, body, rest) \<Rightarrow> (dt, body) # finditer (length cs - length rest) cs)"

definition ENTRY_PATTERN_finditer :: "string \<Rightarrow> (string \<times> string) list" where
  "ENTRY_PATTERN_finditer html = finditer 0 html"

subsection \<open>Rows\<close>

record row =
  r_dt :: datetime
  r_Date :: string
  r_Time :: string
  r_Wave_size :: string
  r_Wind_speed :: string
  r_Wind_direction :: string

definition target_times :: "string list" where
  "target_times = [''06:00'', ''09:00'', ''12:00'', ''15:00'', ''18:00'', ''21:00'']"

text \<open>
  \<^verbatim>\<open>f"{x:.1f}"\<close>: one decimal, the exact binary value rounded half to even, the sign
  bit shown also on a zero.
\<close>

definition format_1f :: "pyfloat \<Rightarrow> string" where
  "format_1f f =
     (case f of
        Finite neg m e \<Rightarrow>
          (let n = (if 0 \<le> e then 10 * m * 2 ^ nat e
                    else round_half_even (10 * m) (2 ^ nat (- e)))
           in (if neg then ''-'' else []) @ show_nat (n div 10) @ ''.'' @ show_nat (n mod 10))
      | Infinity neg \<Rightarrow> (if neg then ''-inf'' else ''inf'')
      | NaN \<Rightarrow> ''nan'')"

text \<open>The dictionary appended to \<^verbatim>\<open>rows\<close> for an entry whose four fields are there.\<close>

definition make_row :: "datetime \<Rightarrow> pyfloat \<Rightarrow> pyfloat \<Rightarrow> int \<Rightarrow> int \<Rightarrow> row" where
  "make_row dt houle houle_max vent dir_deg =
     \<lparr>r_dt = dt,
      r_Date = format_fr_date dt,
      r_Time = strftime_HM dt,
      r_Wave_size = format_1f houle @ ''m - '' @ format_1f houle_max @ ''m'',
      r_Wind_speed = show_int vent @ ''km/h'',
      r_Wind_direction = deg_to_fr_compass dir_deg\<rparr>"

text \<open>
  One turn of the loop over the matches: the row of the entry, nothing when the entry is
  passed over by a \<^verbatim>\<open>continue\<close>, or the exception that leaves the loop.
\<close>

definition entry_row :: "string \<times> string \<Rightarrow> error + row option" where
  "entry_row m =
     (let dt_str = fst m; body = snd m
      in case strptime dt_str of
           Inl e \<Rightarrow> Inl e
         | Inr dt \<Rightarrow>
             (let time_hm = strftime_HM dt
              in if time_hm \<notin> set target_times then Inr None
                 else
                   (case safe_float (extract_phpdump_string body ''houle'') of
                      Inl e \<Rightarrow> Inl e
                    | Inr houle \<Rightarrow>
                   (case safe_float (extract_phpdump_string body ''houleMax'') of
                      Inl e \<Rightarrow> Inl e
                    | Inr houle_max \<Rightarrow>
                   (case safe_int (extract_phpdump_string body ''ventMoyen'') of
                      Inl e \<Rightarrow> Inl e
                    | Inr vent \<Rightarrow>
                   (case safe_int (extract_phpdump_string body ''directionVent'') of
                      Inl e \<Rightarrow> Inl e
                    | Inr dir_deg \<Rightarrow>
                   (case (houle, houle_max, vent, dir_deg) of
                      (Some h, Some hm, Some v, Some dg) \<Rightarrow>
                        Inr (Some (make_row dt h hm v dg))
                    | _ \<Rightarrow> Inr None)))))))"

fun collect_rows :: "(string \<times> string) list \<Rightarrow> row list \<Rightarrow> error + row list" where
  "collect_rows [] rows = Inr rows"
| "collect_rows (m # ms) rows =
     (case entry_row m of
        Inl e \<Rightarrow> Inl e
      | Inr None \<Rightarrow> collect_rows ms rows
      | Inr (Some r) \<Rightarrow> collect_rows ms (rows @ [r]))"

text \<open>
  The walk that keeps the first seven days: \<open>seen_dates\<close> and \<open>filtered\<close> are the two
  lists of the loop; the walk ends at the \<^verbatim>\<open>break\<close> or with the list.
\<close>

definition row_date_key :: "row \<Rightarrow> string" where
  "row_date_key r = strftime_Ymd (r_dt r)"

fun keep_first_days :: "string list \<Rightarrow> row list \<Rightarrow> row list \<Rightarrow> row list" where
  "keep_first_days seen_dates filtered [] = filtered"
| "keep_first_days seen_dates filtered (r # rs) =
     (let date_key = row_date_key r
      in if date_key \<notin> set seen_dates then
           (if 7 \<le> length seen_dates then filtered
            else
              (let seen' = seen_dates @ [date_key]
               in keep_first_days seen'
                    (if date_key \<in> set seen' then filtered @ [r] else filtered) rs))
         else
           keep_first_days seen_dates
             (if date_key \<in> set seen_dates then filtered @ [r] else filtered) rs)"

text \<open>
  \<^verbatim>\<open>rows.sort(key=lambda r: r["_dt"])\<close> is a stable sort, as \<^const>\<open>sort_key\<close> is; then
  the walk.
\<close>

definition first_seven_days :: "row list \<Rightarrow> row list" where
  "first_seven_days rows = keep_first_days [] [] (sort_key (\<lambda>r. dt_key (r_dt r)) rows)"

text \<open>The five columns of the final table, without the technical \<^verbatim>\<open>_dt\<close>.\<close>

definition columns :: "row \<Rightarrow> string list" where
  "columns r = [r_Date r, r_Time r, r_Wave_size r, r_Wind_speed r, r_Wind_direction r]"

subsection \<open>Paths (\<^verbatim>\<open>posixpath\<close>)\<close>

definition isabs :: "string \<Rightarrow> bool" where
  "isabs p = (case p of [] \<Rightarrow> False | c # r \<Rightarrow> c = CHR ''/'')"


text \<open>\<^verbatim>\<open>os.path.join(a, b)\<close> for two parts.\<close>

definition join :: "string \<Rightarrow> string \<Rightarrow> string" where
  "join a b =
     (if isabs b then b
      else if a = [] \<or> last a = CHR ''/'' then a @ b
      else a @ ''/'' @ b)"

text \<open>\<^verbatim>\<open>path.split('/')\<close>; the first argument is the component being read.\<close>

fun split_slash :: "string \<Rightarrow> string \<Rightarrow> string list" where
  "split_slash cur [] = [cur]"
| "split_slash cur (c # cs) =
     (if c = CHR ''/'' then cur # split_slash [] cs else split_slash (cur @ [c]) cs)"

fun join_slash :: "string list \<Rightarrow> string" where
  "join_slash [] = []"
| "join_slash [c] = c"
| "join_slash (c # d # cs) = c @ ''/'' @ join_slash (d # cs)"

text \<open>One turn of the loop of \<^verbatim>\<open>normpath\<close> over the components.\<close>

definition norm_step :: "nat \<Rightarrow> string list \<Rightarrow> string \<Rightarrow> string list" where
  "norm_step initial_slashes new_comps c =
     (if c = [] \<or> c = ''.'' then new_comps
      else if c \<noteq> ''..'' \<or> (initial_slashes = 0 \<and> new_comps = [])
              \<or> (new_comps \<noteq> [] \<and> last new_comps = ''..'')
           then new_comps @ [c]
      else if new_comps \<noteq> [] then butlast new_comps
      else new_comps)"

text \<open>
  The count \<^verbatim>\<open>normpath\<close> keeps of the slashes that begin a path: none for a relative
  path, two for exactly two, one otherwise.
\<close>

definition initial_slashes_of :: "string \<Rightarrow> nat" where
  "initial_slashes_of path =
     (if isabs path then
        (if take 2 path = ''//'' \<and> take 3 path \<noteq> ''///'' then 2 else 1)
      else 0)"

definition normpath :: "string \<Rightarrow> string" where
  "normpath path =
     (if path = [] then ''.''
      else
        (let initial_slashes = initial_slashes_of path;
             comps = foldl (norm_step initial_slashes) [] (split_slash [] path);
             p = replicate initial_slashes (CHR ''/'') @ join_slash comps
         in if p = [] then ''.'' else p))"

definition abspath :: "string \<Rightarrow> string \<Rightarrow> string" where
  "abspath cwd path = normpath (if isabs path then path else join cwd path)"

text \<open>
  \<^verbatim>\<open>os.path.dirname\<close>: the text up to the last slash, without the slashes that end it,
  unless it is made of slashes only.
\<close>

definition dirname :: "string \<Rightarrow> string" where
  "dirname p =
     (let head = rev (dropWhile (\<lambda>c. c \<noteq> CHR ''/'') (rev p))
      in if head \<noteq> [] \<and> \<not> list_all (\<lambda>c. c = CHR ''/'') head
         then rev (dropWhile (\<lambda>c. c = CHR ''/'') (rev head))
         else head)"


subsection \<open>The world outside: network and file system\<close>

datatype http_result = NoResponse | Response nat string

text \<open>
  What \<^verbatim>\<open>requests.get\<close> answers for each URL, the working directory, the directories
  and the files that exist (by absolute normalised path; the module passes no other to
  the operating system), and what was printed. Symbolic links are not modelled.
\<close>

record world =
  w_net :: "string \<Rightarrow> http_result"
  w_cwd :: string
  w_dirs :: "string list"
  w_files :: "(string \<times> string) list"
  w_stdout :: "string list"

text \<open>The root, \<^verbatim>\<open>/\<close> or \<^verbatim>\<open>//\<close>, is always there.\<close>

definition is_root :: "string \<Rightarrow> bool" where
  "is_root p = (p \<noteq> [] \<and> list_all (\<lambda>c. c = CHR ''/'') p)"

definition isdir :: "world \<Rightarrow> string \<Rightarrow> bool" where
  "isdir w p = (is_root p \<or> p \<in> set (w_dirs w))"

definition isfile :: "world \<Rightarrow> string \<Rightarrow> bool" where
  "isfile w p = (p \<in> fst ` set (w_files w))"

definition path_exists :: "world \<Rightarrow> string \<Rightarrow> bool" where
  "path_exists w p = (isdir w p \<or> isfile w p)"

text \<open>
  The directories on the way to a path, the path itself last: the prefixes that end
  before a slash. The root is left out.
\<close>

fun path_prefixes :: "string \<Rightarrow> string \<Rightarrow> string list" where
  "path_prefixes acc [] = (if acc = [] \<or> is_root acc then [] else [acc])"
| "path_prefixes acc (c # cs) =
     (if c = CHR ''/'' \<and> acc \<noteq> [] \<and> \<not> is_root acc
      then acc # path_prefixes (acc @ [c]) cs
      else path_prefixes (acc @ [c]) cs)"

text \<open>
  \<^verbatim>\<open>os.makedirs(p, exist_ok=True)\<close>: every missing directory on the way is created;
  a file standing on the way is an OSError.
\<close>

definition makedirs :: "world \<Rightarrow> string \<Rightarrow> error + world" where
  "makedirs w p =
     (let ps = path_prefixes [] p
      in if list_ex (isfile w) ps then Inl OSError
         else Inr (w\<lparr>w_dirs := w_dirs w @ filter (\<lambda>d. \<not> isdir w d) (remdups ps)\<rparr>))"

text \<open>
  Writing a file: its directory has to exist and the path must not be a directory.
\<close>

definition write_file :: "world \<Rightarrow> string \<Rightarrow> string \<Rightarrow> error + world" where
  "write_file w p content =
     (if isdir w p \<or> \<not> isdir w (dirname p) then Inl OSError
      else Inr (w\<lparr>w_files := (p, content) # filter (\<lambda>f. fst f \<noteq> p) (w_files w)\<rparr>))"

definition ensure_parent_dir :: "world \<Rightarrow> string \<Rightarrow> error + world" where
  "ensure_parent_dir w path =
     (let parent = dirname (abspath (w_cwd w) path)
      in if parent \<noteq> [] \<and> \<not> path_exists w parent then makedirs w parent
         else Inr w)"


definition normalize_output_path :: "world \<Rightarrow> string option \<Rightarrow> string" where
  "normalize_output_path w output_csv_path =
     (case output_csv_path of
        None \<Rightarrow> join (w_cwd w) ''data_surf.csv''
      | Some p0 \<Rightarrow>
          (let p = abspath (w_cwd w) p0
           in if isdir w p then join p ''data_surf.csv'' else p))"

subsection \<open>The table and its file\<close>

text \<open>
  A field of the file is quoted when it holds a comma, a double quote or a line break, a
  double quote in it written twice (the minimal quoting of the \<^verbatim>\<open>csv\<close> module).
\<close>

definition csv_field :: "string \<Rightarrow> string" where
  "csv_field s =
     (if list_ex (\<lambda>c. c = CHR '','' \<or> c = dquote \<or> c = newline \<or> c = CHR 0x0D) s
      then [dquote] @ concat (map (\<lambda>c. if c = dquote then [dquote, dquote] else [c]) s) @ [dquote]
      else s)"

fun csv_line :: "string list \<Rightarrow> string" where
  "csv_line [] = [newline]"
| "csv_line [f] = csv_field f @ [newline]"
| "csv_line (f # g # fs) = csv_field f @ '','' @ csv_line (g # fs)"

definition header :: "string list" where
  "header = [''Date'', ''Time'', ''Wave_size'', ''Wind_speed'', ''Wind_direction'']"

definition to_csv :: "string list list \<Rightarrow> string" where
  "to_csv df = concat (map csv_line (header # df))"

subsection \<open>The one function of the library\<close>

text \<open>
  The result is the table, a list of lines of five columns, or the exception that ends
  the call, and the world after the call.
\<close>

definition scrape_surf_report ::
  "world \<Rightarrow> string \<Rightarrow> string option \<Rightarrow> (error + string list list) \<times> world" where
  "scrape_surf_report w url output_csv_path =
     (case w_net w url of
        NoResponse \<Rightarrow> (Inl RequestException, w)
      | Response status html \<Rightarrow>
          if 400 \<le> status \<and> status < 600 then (Inl HTTPError, w)
          else
            (case collect_rows (ENTRY_PATTERN_finditer html) [] of
               Inl e \<Rightarrow> (Inl e, w)
             | Inr rows \<Rightarrow>
                 if rows = [] then (Inl RuntimeError, w)
                 else
                   (let filtered = first_seven_days rows
                    in if filtered = [] then (Inl KeyError, w)
                       else
                         (let df = map columns filtered;
                              out_path = normalize_output_path w output_csv_path
                          in case ensure_parent_dir w out_path of
                               Inl e \<Rightarrow> (Inl e, w)
                             | Inr w1 \<Rightarrow>
                                 (case write_file w1 out_path (to_csv df) of
                                    Inl e \<Rightarrow> (Inl e, w1)
                                  | Inr w2 \<Rightarrow>
                                      (Inr df,
                                       w2\<lparr>w_stdout := w_stdout w2 @
                                           [''[surf_scrap] CSV sauvegard'' @ [CHR 0xE9] @ '' : ''
                                            @ out_path]\<rparr>))))))"

subsection \<open>Valid rows and sample inputs\<close>

text \<open>
  A valid filtered record: a row as the loop builds it, at one of the six times of day.
\<close>

definition valid_row :: "row \<Rightarrow> bool" where
  "valid_row r =
     (r_Date r = format_fr_date (r_dt r) \<and> r_Time r = strftime_HM (r_dt r)
      \<and> r_Time r \<in> set target_times)"

definition date_labels :: "row list \<Rightarrow> string list" where
  "date_labels rows = remdups (map r_Date rows)"

definition date_keys :: "row list \<Rightarrow> string list" where
  "date_keys rows = remdups (map row_date_key rows)"

definition rows_of_day :: "string \<Rightarrow> row list \<Rightarrow> row list" where
  "rows_of_day k rows = filter (\<lambda>r. row_date_key r = k) rows"

text \<open>
  An entry of the dump as the site prints it: the timestamp, the object marker and the
  fields, each a name and a string.
\<close>

definition sample_field :: "string \<times> string \<Rightarrow> string" where
  "sample_field fv =
     ''    ['' @ [dquote] @ fst fv @ [dquote] @ '']=>'' @ [newline]
     @ ''    string('' @ show_nat (length (snd fv)) @ '') '' @ [dquote] @ snd fv @ [dquote]
     @ [newline]"

definition sample_entry :: "string \<Rightarrow> (string \<times> string) list \<Rightarrow> string" where
  "sample_entry dt fvs =
     ''  ['' @ [dquote] @ dt @ [dquote] @ '']=>'' @ [newline]
     @ ''  object(stdClass)#1 ('' @ show_nat (length fvs) @ '') {'' @ [newline]
     @ concat (map sample_field fvs)
     @ ''  }'' @ [newline]"

text \<open>A page whose one entry, at 06:00, has no wave height and a wind speed \<^verbatim>\<open>inf\<close>.\<close>

definition page_inf :: string where
  "page_inf = sample_entry ''2022-10-22 06:00:00'' [(''ventMoyen'', ''inf'')]"

text \<open>A page whose one entry is complete, at 07:00.\<close>

definition page_0700 :: string where
  "page_0700 =
     sample_entry ''2022-10-22 07:00:00''
       [(''houle'', ''0.8''), (''houleMax'', ''0.7''), (''ventMoyen'', ''3''),
        (''directionVent'', ''135'')]"

text \<open>A page whose one entry is complete, at 07:00 on 30 February.\<close>

definition page_feb30 :: string where
  "page_feb30 =
     sample_entry ''2022-02-30 07:00:00''
       [(''houle'', ''0.8''), (''houleMax'', ''0.7''), (''ventMoyen'', ''3''),
        (''directionVent'', ''135'')]"

text \<open>
  A world that answers every URL with the given page, in the working directory
  \<^verbatim>\<open>/home/u\<close>, where \<^verbatim>\<open>data\<close> is a directory.
\<close>

definition sample_world :: "string \<Rightarrow> world" where
  "sample_world page =
     \<lparr>w_net = (\<lambda>url. Response 200 page),
      w_cwd = ''/home/u'',
      w_dirs = [''/home'', ''/home/u'', ''/home/u/data''],
      w_files = [],
      w_stdout = []\<rparr>"

text \<open>
  Sixteen valid rows on ten days: 1 January 2018 with seven rows, the last time of day
  twice, and 1 to 9 January 2024 with one row each. Both first of January are Mondays.
\<close>

definition sample_row :: "nat \<Rightarrow> nat \<Rightarrow> nat \<Rightarrow> nat \<Rightarrow> row" where
  "sample_row y m d H =
     make_row \<lparr>dt_year = y, dt_month = m, dt_day = d, dt_hour = H, dt_minute = 0, dt_second = 0\<rparr>
       (Finite False 1 0) (Finite False 1 0) 3 135"

definition sample_rows :: "row list" where
  "sample_rows =
     map (sample_row 2018 1 1) [6, 9, 12, 15, 18, 21, 21]
     @ map (\<lambda>d. sample_row 2024 1 d 6) [1, 2, 3, 4, 5, 6, 7, 8, 9]"

text \<open>
  Twenty valid rows on ten days of one month, two times of day each.
\<close>

definition sample_week :: "row list" where
  "sample_week =
     concat (map (\<lambda>d. [sample_row 2024 1 d 6, sample_row 2024 1 d 9])
       [1, 2, 3, 4, 5, 6, 7, 8, 9, 10])"

text \<open>
  Two conditions on a list of rows: no two rows of different days carry the same date
  label, and no two rows share their day and their time of day.
\<close>

definition labels_tell_days :: "row list \<Rightarrow> bool" where
  "labels_tell_days rows =
     list_all (\<lambda>a. list_all (\<lambda>b. r_Date a = r_Date b \<longrightarrow> row_date_key a = row_date_key b) rows)
       rows"

definition one_row_per_time :: "row list \<Rightarrow> bool" where
  "one_row_per_time rows = distinct (map (\<lambda>r. (row_date_key r, r_Time r)) rows)"

section \<open>Properties\<close>

subsection \<open>Compass mapper\<close>

lemma bucket_floor: "\<lfloor>(rat_of_int d + 11.25) / 22.5\<rfloor> = (4 * d + 45) div 90"
proof -
  have "(rat_of_int d + 11.25) / 22.5 = rat_of_int (4 * d + 45) / rat_of_int 90"
    by (simp add: field_simps)
  then show ?thesis
    by (simp only: floor_divide_of_int_eq)
qed

lemma compass_idx_int: "compass_idx d = ((4 * (d mod 360) + 45) div 90) mod 16"
  unfolding compass_idx_def Let_def by (simp only: bucket_floor)

lemma compass_idx_range: "0 \<le> compass_idx d \<and> compass_idx d < 16"
  unfolding compass_idx_int by simp

lemma length_FR_COMPASS_16: "length FR_COMPASS_16 = 16"
  by (simp add: FR_COMPASS_16_def)

lemma bucket_unnormalised:
  "((4 * (d mod 360) + 45) div 90) mod 16 = ((4 * d + 45) div 90) mod (16::int)"
proof -
  have d: "d = 360 * (d div 360) + d mod 360"
    by (rule mult_div_mod_eq [symmetric])
  have "4 * d + 45 = (4 * (d mod 360) + 45) + 90 * (16 * (d div 360))"
    using d by linarith
  then have "(4 * d + 45) div 90 = (4 * (d mod 360) + 45 + 90 * (16 * (d div 360))) div 90"
    by (rule arg_cong)
  also have "\<dots> = 16 * (d div 360) + (4 * (d mod 360) + 45) div 90"
    by (rule div_mult_self2) simp
  finally have e: "(4 * d + 45) div 90 = (4 * (d mod 360) + 45) div 90 + 16 * (d div 360)"
    by (simp only: add.commute)
  show ?thesis
    unfolding e by (rule mod_mult_self2 [symmetric])
qed

lemma nth_compass:
  "FR_COMPASS_16 ! 0 = ''Nord'' \<and> FR_COMPASS_16 ! 8 = ''Sud'' \<and>
   FR_COMPASS_16 ! 12 = ''Ouest'' \<and> FR_COMPASS_16 ! 15 = ''Nord Nord Ouest''"
  by (simp add: FR_COMPASS_16_def)

text \<open>
  C1. The compass mapper looks up, in the table of 16 labels, the entry at index
  \<open>floor((deg + 11.25) / 22.5) mod 16\<close>; the index never leaves the table; 0 degrees
  is "Nord", 180 is "Sud", 349 is "Nord" and 348 is "Nord Nord Ouest".
\<close>

theorem compass_bucket_formula:
  "deg_to_fr_compass d = FR_COMPASS_16 ! nat (\<lfloor>(rat_of_int d + 11.25) / 22.5\<rfloor> mod 16)
   \<and> nat (\<lfloor>(rat_of_int d + 11.25) / 22.5\<rfloor> mod 16) < length FR_COMPASS_16
   \<and> deg_to_fr_compass 0 = ''Nord''
   \<and> deg_to_fr_compass 180 = ''Sud''
   \<and> deg_to_fr_compass 349 = ''Nord''
   \<and> deg_to_fr_compass 348 = ''Nord Nord Ouest''"
proof -
  have f: "deg_to_fr_compass d = FR_COMPASS_16 ! nat (\<lfloor>(rat_of_int d + 11.25) / 22.5\<rfloor> mod 16)"
    unfolding deg_to_fr_compass_def compass_idx_int
    by (simp only: bucket_floor bucket_unnormalised)
  have r: "nat (\<lfloor>(rat_of_int d + 11.25) / 22.5\<rfloor> mod 16) < length FR_COMPASS_16"
    by (simp add: length_FR_COMPASS_16)
  have v0: "deg_to_fr_compass 0 = ''Nord''"
    unfolding deg_to_fr_compass_def compass_idx_int using nth_compass by simp
  have v180: "deg_to_fr_compass 180 = ''Sud''"
    unfolding deg_to_fr_compass_def compass_idx_int using nth_compass by simp
  have v349: "deg_to_fr_compass 349 = ''Nord''"
    unfolding deg_to_fr_compass_def compass_idx_int using nth_compass by simp
  have v348: "deg_to_fr_compass 348 = ''Nord Nord Ouest''"
    unfolding deg_to_fr_compass_def compass_idx_int using nth_compass by simp
  from f r v0 v180 v349 v348 show ?thesis
    by blast
qed

text \<open>
  C5. The label is periodic with period 360 in the degree, for every integer number of
  turns; the argument is first reduced into \<open>[0, 360)\<close> by the floor modulus, so a
  negative bearing wraps to a positive one (\<open>-90\<close> is "Ouest", as 270 is).
\<close>

theorem compass_periodic:
  "deg_to_fr_compass d = deg_to_fr_compass (d + 360 * k)
   \<and> deg_to_fr_compass d = deg_to_fr_compass (d mod 360)
   \<and> 0 \<le> d mod 360 \<and> d mod 360 < 360
   \<and> deg_to_fr_compass (- 90) = ''Ouest''
   \<and> deg_to_fr_compass (- 90) = deg_to_fr_compass 270"
proof -
  have p: "deg_to_fr_compass d = deg_to_fr_compass (d + 360 * k)"
    unfolding deg_to_fr_compass_def compass_idx_int by simp
  have n: "deg_to_fr_compass d = deg_to_fr_compass (d mod 360)"
    unfolding deg_to_fr_compass_def compass_idx_int by simp
  have w: "deg_to_fr_compass (- 90) = ''Ouest''"
    unfolding deg_to_fr_compass_def compass_idx_int using nth_compass by simp
  have w': "deg_to_fr_compass 270 = ''Ouest''"
    unfolding deg_to_fr_compass_def compass_idx_int using nth_compass by simp
  from p n w w' show ?thesis
    by simp
qed

subsection \<open>Field coercions\<close>

lemma py_float_error: "py_float x = Inl e \<Longrightarrow> e = ValueError"
  by (auto simp: py_float_def Let_def split: option.splits prod.splits if_splits)

lemma safe_float_returns: "\<exists>r. safe_float x = Inr r"
proof (cases x)
  case None
  then show ?thesis by (simp add: safe_float_def)
next
  case (Some x0)
  show ?thesis
  proof (cases "py_float (strip x0)")
    case (Inl e)
    then have "e = ValueError" by (rule py_float_error)
    with Inl Some show ?thesis
      by (simp add: safe_float_def except_ValueError_def Let_def)
  next
    case (Inr f)
    with Some show ?thesis
      by (simp add: safe_float_def except_ValueError_def Let_def)
  qed
qed

lemma floor_magnitude:
  "\<lfloor>rat_of_nat m * 2 powi e\<rfloor> = (if 0 \<le> e then int m * 2 ^ nat e else int m div 2 ^ nat (- e))"
proof (cases "0 \<le> e")
  case True
  then have "rat_of_nat m * 2 powi e = rat_of_int (int m * 2 ^ nat e)"
    by (simp add: power_int_def)
  then show ?thesis using True by (simp only: floor_of_int if_True)
next
  case False
  then have "rat_of_nat m * 2 powi e = rat_of_int (int m) / rat_of_int (2 ^ nat (- e))"
    by (simp add: power_int_def field_simps)
  then have "\<lfloor>rat_of_nat m * 2 powi e\<rfloor> = int m div 2 ^ nat (- e)"
    by (simp only: floor_divide_of_int_eq)
  with False show ?thesis by simp
qed

lemma trunc_of_finite:
  assumes "float_value (Finite neg m e) = Some v"
  shows "py_int_of_float (Finite neg m e) = Inr (if v < 0 then \<lceil>v\<rceil> else \<lfloor>v\<rfloor>)"
proof -
  let ?a = "rat_of_nat m * 2 powi e"
  let ?mag = "(if 0 \<le> e then int m * 2 ^ nat e else int m div 2 ^ nat (- e))"
  have a0: "0 \<le> ?a" by simp
  have fl: "\<lfloor>?a\<rfloor> = ?mag" by (rule floor_magnitude)
  have v: "v = (if neg then - ?a else ?a)"
    using assms by (auto simp: float_value_def)
  have r: "py_int_of_float (Finite neg m e) = Inr (if neg then - ?mag else ?mag)"
    by (simp add: py_int_of_float_def Let_def)
  show ?thesis
  proof (cases neg)
    case False
    with v have "v = ?a" by simp
    moreover from this a0 have "\<not> v < 0" by (simp only: not_less)
    ultimately have "\<not> v < 0" and "v = ?a" by blast+
    with r fl False show ?thesis by simp
  next
    case True
    with v have va: "v = - ?a" by simp
    show ?thesis
    proof (cases "?a = 0")
      case True
      with va have "v = 0" by simp
      moreover from True fl have "?mag = 0" by simp
      ultimately show ?thesis using r \<open>neg\<close> by simp
    next
      case False
      with a0 have "0 < ?a" by (simp only: less_le) simp
      with va have "v < 0" by simp
      moreover have "\<lceil>v\<rceil> = - \<lfloor>?a\<rfloor>" unfolding va by (simp add: ceiling_def)
      ultimately show ?thesis using r \<open>neg\<close> fl by simp
    qed
  qed
qed

lemma trunc_magnitude:
  "\<bar>rat_of_int (if v < 0 then \<lceil>v\<rceil> else \<lfloor>v\<rfloor>)\<bar> \<le> \<bar>v\<bar>"
proof (cases "v < 0")
  case True
  then have "\<lceil>v\<rceil> \<le> 0" by (simp add: ceiling_le_zero less_imp_le)
  moreover have "v \<le> rat_of_int \<lceil>v\<rceil>" by (rule le_of_int_ceiling)
  ultimately show ?thesis using True by simp
next
  case False
  then have "0 \<le> \<lfloor>v\<rfloor>" by simp
  moreover have "rat_of_int \<lfloor>v\<rfloor> \<le> v" by (rule of_int_floor_le)
  ultimately show ?thesis using False by simp
qed

text \<open>The doubles nearest to 3.7 and to 12, whatever the sign.\<close>

lemma round_double_3_7: "round_double neg 37 (- 1) = Finite neg 8331659310635418 (- 51)"
  by (simp add: round_double_def floor_log2_def round_half_even_def bit_length.simps Let_def)

lemma round_double_12_0: "round_double neg 120 (- 1) = Finite neg 6755399441055744 (- 49)"
  by (simp add: round_double_def floor_log2_def round_half_even_def bit_length.simps Let_def)

lemma py_float_3_7: "py_float ''3.7'' = Inr (Finite False 8331659310635418 (- 51))"
proof -
  have s: "strip ''3.7'' = ''3.7''" by code_simp
  have p: "parse_decimal ''3.7'' = Some (False, 37, - 1)" by code_simp
  show ?thesis by (simp add: py_float_def Let_def s p round_double_3_7)
qed

lemma py_float_minus_3_7: "py_float ''-3.7'' = Inr (Finite True 8331659310635418 (- 51))"
proof -
  have s: "strip ''-3.7'' = ''-3.7''" by code_simp
  have p: "parse_decimal ''-3.7'' = Some (True, 37, - 1)" by code_simp
  show ?thesis by (simp add: py_float_def Let_def s p round_double_3_7)
qed

lemma py_float_12_0: "py_float ''12.0'' = Inr (Finite False 6755399441055744 (- 49))"
proof -
  have s: "strip ''12.0'' = ''12.0''" by code_simp
  have p: "parse_decimal ''12.0'' = Some (False, 120, - 1)" by code_simp
  show ?thesis by (simp add: py_float_def Let_def s p round_double_12_0)
qed

lemma safe_int_3_7: "safe_int (Some ''3.7'') = Inr (Some 3)"
proof -
  have s: "strip ''3.7'' = ''3.7''" by code_simp
  show ?thesis
    by (simp add: safe_int_def Let_def s py_float_3_7 py_int_of_float_def except_ValueError_def)
qed

lemma safe_int_minus_3_7: "safe_int (Some ''-3.7'') = Inr (Some (- 3))"
proof -
  have s: "strip ''-3.7'' = ''-3.7''" by code_simp
  show ?thesis
    by (simp add: safe_int_def Let_def s py_float_minus_3_7 py_int_of_float_def
        except_ValueError_def)
qed

text \<open>
  C2. The claim: \<open>to_float\<close> and \<open>to_int\<close> return a value or the absent value on every
  string and never raise. \<open>safe_float\<close> does (lemma \<open>safe_float_returns\<close>); \<open>safe_int\<close>
  does not: the string \<^verbatim>\<open>inf\<close> is a float, the conversion of an infinity to an integer
  raises OverflowError, and the handler catches ValueError only.
\<close>

theorem safe_int_inf_raises: "safe_int (Some ''inf'') = Inl OverflowError"
  by code_simp

text \<open>
  C6. \<open>to_int("12.0")\<close> is 12: the string is read as a float, then converted;
  \<open>to_int("-")\<close> and \<open>to_int("")\<close> are absent; \<open>to_float("abc")\<close> is absent.
\<close>

theorem coercion_examples:
  "safe_int (Some ''12.0'') = Inr (Some 12)
   \<and> safe_int (Some ''-'') = Inr None
   \<and> safe_int (Some []) = Inr None
   \<and> safe_float (Some ''abc'') = Inr None"
proof -
  have s: "strip ''12.0'' = ''12.0''" by code_simp
  have a: "safe_int (Some ''12.0'') = Inr (Some 12)"
    by (simp add: safe_int_def Let_def s py_float_12_0 py_int_of_float_def except_ValueError_def)
  have b: "safe_int (Some ''-'') = Inr None" by code_simp
  have c: "safe_int (Some []) = Inr None" by code_simp
  have d: "safe_float (Some ''abc'') = Inr None" by code_simp
  from a b c d show ?thesis by blast
qed

text \<open>
  C9. When the trimmed string reads as a finite float of value \<open>v\<close>, \<open>to_int\<close> is \<open>v\<close>
  without its fractional part, rounded toward zero: the ceiling of a negative \<open>v\<close>, the
  floor otherwise, never of larger magnitude than \<open>v\<close>. \<open>to_int("3.7")\<close> is 3 and
  \<open>to_int("-3.7")\<close> is \<open>-3\<close>, not \<open>-4\<close>.
\<close>

theorem safe_int_truncates_toward_zero:
  assumes "strip s \<noteq> []" and "strip s \<noteq> ''-''"
    and "py_float (strip s) = Inr f" and "float_value f = Some v"
  shows "safe_int (Some s) = Inr (Some (if v < 0 then \<lceil>v\<rceil> else \<lfloor>v\<rfloor>))
         \<and> \<bar>rat_of_int (if v < 0 then \<lceil>v\<rceil> else \<lfloor>v\<rfloor>)\<bar> \<le> \<bar>v\<bar>
         \<and> safe_int (Some ''3.7'') = Inr (Some 3)
         \<and> safe_int (Some ''-3.7'') = Inr (Some (- 3))
         \<and> safe_int (Some ''-3.7'') \<noteq> Inr (Some (- 4))"
proof -
  from assms(4) obtain neg m e where f: "f = Finite neg m e"
    by (cases f) (simp_all add: float_value_def)
  with assms(4) have "py_int_of_float f = Inr (if v < 0 then \<lceil>v\<rceil> else \<lfloor>v\<rfloor>)"
    by (simp only: trunc_of_finite)
  with assms(1-3) have a: "safe_int (Some s) = Inr (Some (if v < 0 then \<lceil>v\<rceil> else \<lfloor>v\<rfloor>))"
    by (simp add: safe_int_def Let_def except_ValueError_def)
  have b: "safe_int (Some ''-3.7'') \<noteq> Inr (Some (- 4))"
    by (simp add: safe_int_minus_3_7)
  from a b trunc_magnitude [of v] safe_int_3_7 safe_int_minus_3_7 show ?thesis
    by blast
qed

theorem safe_int_truncates_toward_zero_witness:
  "safe_int (Some ''-3.7'') = Inr (Some \<lceil>- (8331659310635418 * 2 powi (- 51)) :: rat\<rceil>)"
proof -
  have s: "strip ''-3.7'' = ''-3.7''" by code_simp
  have h1: "strip ''-3.7'' \<noteq> []" by (simp add: s)
  have h2: "strip ''-3.7'' \<noteq> ''-''" by (simp add: s)
  have h3: "py_float (strip ''-3.7'') = Inr (Finite True 8331659310635418 (- 51))"
    by (simp add: s py_float_minus_3_7)
  have h4: "float_value (Finite True 8331659310635418 (- 51))
            = Some (- (8331659310635418 * 2 powi (- 51)))"
    by (simp add: float_value_def)
  have n: "- (8331659310635418 * 2 powi (- 51)) < (0::rat)"
    by simp
  from safe_int_truncates_toward_zero [OF h1 h2 h3 h4] n show ?thesis
    by (simp only: if_True)
qed

subsection \<open>The loop over the entries\<close>

lemma collect_rows_skipped:
  "list_all (\<lambda>m. entry_row m = Inr None) ms \<Longrightarrow> collect_rows ms rows = Inr rows"
  by (induction ms arbitrary: rows) simp_all

lemma collect_rows_extends:
  "collect_rows ms rows = Inr out \<Longrightarrow>
     \<exists>new. out = rows @ new \<and> (new = [] \<longleftrightarrow> list_all (\<lambda>m. entry_row m = Inr None) ms)"
proof (induction ms arbitrary: rows)
  case Nil
  then show ?case by simp
next
  case (Cons m ms)
  show ?case
  proof (cases "entry_row m")
    case (Inl e)
    with Cons.prems show ?thesis by simp
  next
    case (Inr ro)
    show ?thesis
    proof (cases ro)
      case None
      with Inr Cons.prems have "collect_rows ms rows = Inr out" by simp
      from Cons.IH [OF this] Inr None show ?thesis by simp
    next
      case (Some r)
      with Inr Cons.prems have "collect_rows ms (rows @ [r]) = Inr out" by simp
      from Cons.IH [OF this] obtain new where "out = (rows @ [r]) @ new" by blast
      then have "out = rows @ (r # new)" by simp
      with Inr Some show ?thesis by simp
    qed
  qed
qed

text \<open>
  An entry at one of the six times whose four fields decode without an exception, one of
  them to the absent value, is passed over.
\<close>

lemma entry_row_absent_dropped:
  assumes "strptime (fst m) = Inr dt"
    and "safe_float (extract_phpdump_string (snd m) ''houle'') = Inr houle"
    and "safe_float (extract_phpdump_string (snd m) ''houleMax'') = Inr houle_max"
    and "safe_int (extract_phpdump_string (snd m) ''ventMoyen'') = Inr vent"
    and "safe_int (extract_phpdump_string (snd m) ''directionVent'') = Inr dir_deg"
    and "houle = None \<or> houle_max = None \<or> vent = None \<or> dir_deg = None"
  shows "entry_row m = Inr None"
  using assms by (auto simp: entry_row_def Let_def split: option.splits)

text \<open>A row comes only from an entry whose four fields are all there, and is valid.\<close>

lemma entry_row_complete:
  assumes "entry_row m = Inr (Some r)"
  shows "\<exists>dt h hm v dg.
           strptime (fst m) = Inr dt
           \<and> safe_float (extract_phpdump_string (snd m) ''houle'') = Inr (Some h)
           \<and> safe_float (extract_phpdump_string (snd m) ''houleMax'') = Inr (Some hm)
           \<and> safe_int (extract_phpdump_string (snd m) ''ventMoyen'') = Inr (Some v)
           \<and> safe_int (extract_phpdump_string (snd m) ''directionVent'') = Inr (Some dg)
           \<and> r = make_row dt h hm v dg \<and> valid_row r"
  using assms
  by (auto simp: entry_row_def Let_def valid_row_def make_row_def
      split: sum.splits option.splits if_splits)

text \<open>
  C7. The claim: a record with one of its four fields absent is left out and the failure
  of a field raises nothing. The entry of \<open>page_inf\<close> has no wave height, which decodes to
  the absent value, and the wind speed \<^verbatim>\<open>inf\<close>: the loop does not pass it over, the
  OverflowError of \<open>safe_int\<close> ends the whole call.
\<close>

theorem absent_field_entry_raises:
  "ENTRY_PATTERN_finditer page_inf =
     [(''2022-10-22 06:00:00'',
       ''['' @ [dquote] @ ''ventMoyen'' @ [dquote] @ '']=>'' @ [newline]
       @ ''    string(3) '' @ [dquote] @ ''inf'' @ [dquote])]
   \<and> safe_float (extract_phpdump_string (snd (hd (ENTRY_PATTERN_finditer page_inf))) ''houle'')
       = Inr None
   \<and> entry_row (hd (ENTRY_PATTERN_finditer page_inf)) = Inl OverflowError
   \<and> scrape_surf_report (sample_world page_inf) url out
       = (Inl OverflowError, sample_world page_inf)"
proof -
  have a: "ENTRY_PATTERN_finditer page_inf =
     [(''2022-10-22 06:00:00'',
       ''['' @ [dquote] @ ''ventMoyen'' @ [dquote] @ '']=>'' @ [newline]
       @ ''    string(3) '' @ [dquote] @ ''inf'' @ [dquote])]"
    by code_simp
  have b: "safe_float (extract_phpdump_string (snd (hd (ENTRY_PATTERN_finditer page_inf)))
             ''houle'') = Inr None"
    by code_simp
  have c: "entry_row (hd (ENTRY_PATTERN_finditer page_inf)) = Inl OverflowError"
    by code_simp
  have d: "collect_rows (ENTRY_PATTERN_finditer page_inf) [] = Inl OverflowError"
    by code_simp
  have e: "scrape_surf_report (sample_world page_inf) url out
             = (Inl OverflowError, sample_world page_inf)"
    by (simp add: scrape_surf_report_def sample_world_def d)
  from a b c e show ?thesis by blast
qed

text \<open>
  When the page was fetched and the loop passes over every entry matched in it without an
  exception, the call ends with the data-extraction error, the RuntimeError, and the
  world is as before: nothing is written, no directory is made, nothing is printed.
\<close>

lemma no_rows_data_extraction_error:
  assumes "w_net w url = Response status html"
    and "\<not> (400 \<le> status \<and> status < 600)"
    and "list_all (\<lambda>m. entry_row m = Inr None) (ENTRY_PATTERN_finditer html)"
  shows "scrape_surf_report w url out = (Inl RuntimeError, w)"
proof -
  from assms(3) have "collect_rows (ENTRY_PATTERN_finditer html) [] = Inr []"
    by (rule collect_rows_skipped)
  with assms(1,2) show ?thesis
    by (simp add: scrape_surf_report_def)
qed

lemma no_rows_page_0700:
  "length (ENTRY_PATTERN_finditer page_0700) = 1
   \<and> scrape_surf_report (sample_world page_0700) url out
       = (Inl RuntimeError, sample_world page_0700)"
proof -
  have n: "length (ENTRY_PATTERN_finditer page_0700) = 1"
    by code_simp
  have h1: "w_net (sample_world page_0700) url = Response 200 page_0700"
    by (simp add: sample_world_def)
  have h2: "\<not> (400 \<le> (200::nat) \<and> (200::nat) < 600)"
    by simp
  have h3: "list_all (\<lambda>m. entry_row m = Inr None) (ENTRY_PATTERN_finditer page_0700)"
    by code_simp
  from n no_rows_data_extraction_error [OF h1 h2 h3] show ?thesis
    by simp
qed

text \<open>
  C4. The claim: a fetched page from which no valid record survives, be it that no
  record is at one of the six times, ends the call with the data-extraction error. The one
  entry of \<open>page_feb30\<close> is at 07:00, which is none of the six times, on 30 February:
  \<open>strptime\<close> raises ValueError before the time of day is looked at, and the call ends
  with that ValueError, not with the RuntimeError. The same entry on a real day,
  \<open>page_0700\<close>, ends with the RuntimeError. Nothing is written in either case.
\<close>

theorem unfiltered_page_ends_in_ValueError:
  "ENTRY_PATTERN_finditer page_feb30 = [(''2022-02-30 07:00:00'', snd (hd (ENTRY_PATTERN_finditer page_0700)))]
   \<and> strptime ''2022-02-30 07:00:00'' = Inl ValueError
   \<and> scrape_surf_report (sample_world page_feb30) url out
       = (Inl ValueError, sample_world page_feb30)
   \<and> scrape_surf_report (sample_world page_0700) url out
       = (Inl RuntimeError, sample_world page_0700)"
proof -
  have a: "ENTRY_PATTERN_finditer page_feb30
      = [(''2022-02-30 07:00:00'', snd (hd (ENTRY_PATTERN_finditer page_0700)))]"
    by code_simp
  have b: "strptime ''2022-02-30 07:00:00'' = Inl ValueError"
    by code_simp
  have c: "collect_rows (ENTRY_PATTERN_finditer page_feb30) [] = Inl ValueError"
    by code_simp
  have d: "scrape_surf_report (sample_world page_feb30) url out
      = (Inl ValueError, sample_world page_feb30)"
    by (simp add: scrape_surf_report_def sample_world_def c)
  from a b d no_rows_page_0700 [of url out] show ?thesis by blast
qed

subsection \<open>Output path\<close>









































subsection \<open>Day keys\<close>

lemma digit_val_digit_char: "k < 10 \<Longrightarrow> digit_val (digit_char k) = k"
  by (simp add: digit_val_def digit_char_def)

lemma is_digit_digit_char: "k < 10 \<Longrightarrow> is_digit (digit_char k)"
  by (simp add: is_digit_def digit_char_def)

lemma is_digit_show_nat: "list_all is_digit (show_nat n)"
proof (induction n rule: show_nat.induct)
  case (1 n)
  show ?case
  proof (cases "n < 10")
    case True
    then show ?thesis by (subst show_nat.simps) (simp add: is_digit_digit_char)
  next
    case False
    with 1 show ?thesis by (subst show_nat.simps) (simp add: is_digit_digit_char)
  qed
qed

lemma digits_val_append: "digits_val acc (xs @ ys) = digits_val (digits_val acc xs) ys"
  by (induction xs arbitrary: acc) simp_all

lemma digits_val_show_nat: "digits_val 0 (show_nat n) = n"
proof (induction n rule: show_nat.induct)
  case (1 n)
  show ?case
  proof (cases "n < 10")
    case True
    then show ?thesis by (subst show_nat.simps) (simp add: digit_val_digit_char)
  next
    case False
    with 1 have "digits_val 0 (show_nat (n div 10)) = n div 10" by simp
    with False show ?thesis
      by (subst show_nat.simps) (simp add: digits_val_append digit_val_digit_char)
  qed
qed

lemma digits_val_zeros: "digits_val 0 (replicate k (CHR ''0'') @ xs) = digits_val 0 xs"
  by (induction k) (simp_all add: digit_val_def)

lemma digits_val_zero_pad: "digits_val 0 (zero_pad w n) = n"
  by (simp add: zero_pad_def digits_val_zeros digits_val_show_nat)

lemma is_digit_zero: "is_digit (CHR ''0'')"
  by (simp add: is_digit_def)

lemma is_digit_zero_pad: "list_all is_digit (zero_pad w n)"
  using is_digit_show_nat [of n] by (auto simp: zero_pad_def list_all_iff is_digit_zero)

lemma takeWhile_digits:
  "list_all is_digit a \<Longrightarrow> takeWhile is_digit (a @ CHR ''-'' # r) = a"
  by (induction a) (simp_all add: is_digit_def)

lemma dropWhile_digits:
  "list_all is_digit a \<Longrightarrow> dropWhile is_digit (a @ CHR ''-'' # r) = CHR ''-'' # r"
  by (induction a) (simp_all add: is_digit_def)

lemma takeWhile_all_digits: "list_all is_digit a \<Longrightarrow> takeWhile is_digit a = a"
  by (induction a) simp_all

lemma strftime_Ymd_fields:
  "dt_year d = digits_val 0 (takeWhile is_digit (strftime_Ymd d))
   \<and> dt_month d = digits_val 0 (takeWhile is_digit (tl (dropWhile is_digit (strftime_Ymd d))))
   \<and> dt_day d = digits_val 0 (takeWhile is_digit
        (tl (dropWhile is_digit (tl (dropWhile is_digit (strftime_Ymd d))))))"
  by (simp add: strftime_Ymd_def takeWhile_digits dropWhile_digits is_digit_zero_pad
      takeWhile_all_digits digits_val_zero_pad)

lemma strftime_Ymd_inj:
  assumes "strftime_Ymd a = strftime_Ymd b"
  shows "dt_year a = dt_year b \<and> dt_month a = dt_month b \<and> dt_day a = dt_day b"
  using strftime_Ymd_fields [of a] strftime_Ymd_fields [of b] assms by simp

lemma strftime_Ymd_cong:
  "dt_year a = dt_year b \<Longrightarrow> dt_month a = dt_month b \<Longrightarrow> dt_day a = dt_day b
   \<Longrightarrow> strftime_Ymd a = strftime_Ymd b"
  by (simp add: strftime_Ymd_def)


lemma lex_squeeze:
  fixes a1 b1 c1 :: "'a::linorder" and a2 b2 c2 :: "'b::linorder"
  assumes "(a1, a2) \<le> (b1, b2)" and "(b1, b2) \<le> (c1, c2)" and "a1 = c1"
  shows "b1 = a1 \<and> a2 \<le> b2 \<and> b2 \<le> c2"
proof -
  from assms(1) have 1: "a1 < b1 \<or> a1 \<le> b1 \<and> a2 \<le> b2"
    by (simp add: less_eq_prod_def)
  from assms(2) have 2: "b1 < c1 \<or> b1 \<le> c1 \<and> b2 \<le> c2"
    by (simp add: less_eq_prod_def)
  from 1 2 assms(3) have "b1 = a1" by auto
  with 1 2 assms(3) show ?thesis by auto
qed

lemma date_squeeze:
  assumes "dt_key a \<le> dt_key b" and "dt_key b \<le> dt_key c"
    and "strftime_Ymd a = strftime_Ymd c"
  shows "strftime_Ymd b = strftime_Ymd a"
proof -
  from assms(3) have e: "dt_year a = dt_year c" "dt_month a = dt_month c" "dt_day a = dt_day c"
    using strftime_Ymd_inj by blast+
  note y = lex_squeeze [OF assms(1) [unfolded dt_key_def] assms(2) [unfolded dt_key_def] e(1)]
  note m = lex_squeeze [OF y [THEN conjunct2, THEN conjunct1] y [THEN conjunct2, THEN conjunct2] e(2)]
  note d = lex_squeeze [OF m [THEN conjunct2, THEN conjunct1] m [THEN conjunct2, THEN conjunct2] e(3)]
  from y m d have "dt_year b = dt_year a" and "dt_month b = dt_month a" and "dt_day b = dt_day a"
    by blast+
  then show ?thesis by (rule strftime_Ymd_cong)
qed

subsection \<open>The walk over the sorted rows\<close>

lemma keep_first_days_Cons:
  "keep_first_days seen filtered (r # rs) =
     (if row_date_key r \<in> set seen then keep_first_days seen (filtered @ [r]) rs
      else if 7 \<le> length seen then filtered
      else keep_first_days (seen @ [row_date_key r]) (filtered @ [r]) rs)"
  by (simp add: Let_def)

lemma keep_first_days_acc:
  "keep_first_days seen filtered rs = filtered @ keep_first_days seen [] rs"
proof (induction rs arbitrary: seen filtered)
  case Nil
  show ?case by simp
next
  case (Cons r rs)
  have a: "keep_first_days s (filtered @ [r]) rs = filtered @ r # keep_first_days s [] rs" for s
    using Cons.IH [of s "filtered @ [r]"] by simp
  have b: "keep_first_days s [r] rs = r # keep_first_days s [] rs" for s
    using Cons.IH [of s "[r]"] by simp
  show ?case
    unfolding keep_first_days_Cons [of seen filtered] keep_first_days_Cons [of seen "[]"]
    by (simp only: a b append_Nil append_Nil2 if_distrib [of "\<lambda>x. filtered @ x"] split: if_splits)
qed

lemma walk_Cons:
  "keep_first_days seen [] (r # rs) =
     (if row_date_key r \<in> set seen then r # keep_first_days seen [] rs
      else if 7 \<le> length seen then []
      else r # keep_first_days (seen @ [row_date_key r]) [] rs)"
  unfolding keep_first_days_Cons [of seen "[]"]
  using keep_first_days_acc [of _ "[r]" rs] by simp

lemma walk_prefix:
  "take (length (keep_first_days seen [] rs)) rs = keep_first_days seen [] rs"
proof (induction rs arbitrary: seen)
  case Nil
  show ?case by simp
next
  case (Cons r rs)
  show ?case unfolding walk_Cons using Cons.IH by simp
qed

lemma keys_seen_old:
  "f r \<in> S \<Longrightarrow> S \<union> f ` set (r # xs) = S \<union> f ` set xs"
  by auto

lemma keys_seen_new:
  "set (seen @ [f r]) \<union> f ` set xs = set seen \<union> f ` set (r # xs)"
  by auto

lemma walk_card:
  assumes "distinct seen" and "length seen \<le> 7"
  shows "card (set seen \<union> row_date_key ` set (keep_first_days seen [] rs)) \<le> 7"
  using assms
proof (induction rs arbitrary: seen)
  case Nil
  then show ?case by (simp add: distinct_card)
next
  case (Cons r rs)
  show ?case
  proof (cases "row_date_key r \<in> set seen")
    case True
    then have "keep_first_days seen [] (r # rs) = r # keep_first_days seen [] rs"
      by (simp only: walk_Cons if_True)
    with Cons.IH [OF Cons.prems] True show ?thesis
      by (simp only: keys_seen_old)
  next
    case False
    show ?thesis
    proof (cases "7 \<le> length seen")
      case True
      with False have "keep_first_days seen [] (r # rs) = []"
        by (simp only: walk_Cons if_True if_False)
      with Cons.prems show ?thesis by (simp add: distinct_card)
    next
      case short: False
      with False have e: "keep_first_days seen [] (r # rs)
          = r # keep_first_days (seen @ [row_date_key r]) [] rs"
        by (simp only: walk_Cons if_False)
      from False Cons.prems(1) have d: "distinct (seen @ [row_date_key r])" by simp
      from short have l: "length (seen @ [row_date_key r]) \<le> 7" by simp
      from Cons.IH [OF d l] show ?thesis
        unfolding e by (simp only: keys_seen_new)
    qed
  qed
qed

lemma walk_stop:
  assumes "distinct seen" and "length seen \<le> 7"
    and "length (keep_first_days seen [] rs) < length rs"
  shows "row_date_key (rs ! length (keep_first_days seen [] rs))
           \<notin> set seen \<union> row_date_key ` set (keep_first_days seen [] rs)
         \<and> card (set seen \<union> row_date_key ` set (keep_first_days seen [] rs)) = 7"
  using assms
proof (induction rs arbitrary: seen)
  case Nil
  then show ?case by simp
next
  case (Cons r rs)
  show ?case
  proof (cases "row_date_key r \<in> set seen")
    case True
    then have e: "keep_first_days seen [] (r # rs) = r # keep_first_days seen [] rs"
      by (simp only: walk_Cons if_True)
    with Cons.prems(3) have "length (keep_first_days seen [] rs) < length rs" by simp
    note ih = Cons.IH [OF Cons.prems(1,2) this]
    have s: "set seen \<union> row_date_key ` set (r # keep_first_days seen [] rs)
        = set seen \<union> row_date_key ` set (keep_first_days seen [] rs)"
      using True by (rule keys_seen_old)
    show ?thesis
      unfolding e s length_Cons nth_Cons_Suc by (rule ih)
  next
    case False
    show ?thesis
    proof (cases "7 \<le> length seen")
      case True
      with False have e: "keep_first_days seen [] (r # rs) = []"
        by (simp only: walk_Cons if_True if_False)
      from True Cons.prems(1,2) have "card (set seen) = 7" by (simp add: distinct_card)
      with False show ?thesis unfolding e by simp
    next
      case short: False
      with False have e: "keep_first_days seen [] (r # rs)
          = r # keep_first_days (seen @ [row_date_key r]) [] rs"
        by (simp only: walk_Cons if_False)
      from False Cons.prems(1) have d: "distinct (seen @ [row_date_key r])" by simp
      from short have l: "length (seen @ [row_date_key r]) \<le> 7" by simp
      from Cons.prems(3) have "length (keep_first_days (seen @ [row_date_key r]) [] rs) < length rs"
        unfolding e by simp
      note ih = Cons.IH [OF d l this]
      have s: "set seen \<union> row_date_key ` set (r # keep_first_days (seen @ [row_date_key r]) [] rs)
          = set (seen @ [row_date_key r])
            \<union> row_date_key ` set (keep_first_days (seen @ [row_date_key r]) [] rs)"
        by (rule keys_seen_new [symmetric])
      show ?thesis
        unfolding e s length_Cons nth_Cons_Suc by (rule ih)
    qed
  qed
qed

lemma sorted_rest_new_day:
  assumes "sorted (map (\<lambda>r. dt_key (r_dt r)) xs)" and "n < length xs"
    and "row_date_key (xs ! n) \<notin> row_date_key ` set (take n xs)"
  shows "row_date_key ` set (take n xs) \<inter> row_date_key ` set (drop n xs) = {}"
proof (rule ccontr)
  assume "row_date_key ` set (take n xs) \<inter> row_date_key ` set (drop n xs) \<noteq> {}"
  then obtain a r where a: "a \<in> set (take n xs)" and r: "r \<in> set (drop n xs)"
    and k: "row_date_key a = row_date_key r"
    by auto
  from a obtain i where i: "i < n" "i < length xs" "a = xs ! i"
    by (auto simp: in_set_conv_nth)
  from r obtain j where j: "n \<le> j" "j < length xs" "r = xs ! j"
    by (auto simp: in_set_conv_nth) (metis add.commute le_add2 less_diff_conv)
  let ?f = "\<lambda>r. dt_key (r_dt r)"
  from assms(1) i(1) assms(2) have "map ?f xs ! i \<le> map ?f xs ! n"
    by (intro sorted_nth_mono) simp_all
  with i(2) assms(2) have 1: "dt_key (r_dt (xs ! i)) \<le> dt_key (r_dt (xs ! n))"
    by (simp only: nth_map)
  from assms(1) j(1,2) have "map ?f xs ! n \<le> map ?f xs ! j"
    by (intro sorted_nth_mono) simp_all
  with j(2) assms(2) have 2: "dt_key (r_dt (xs ! n)) \<le> dt_key (r_dt (xs ! j))"
    by (simp only: nth_map)
  from k i(3) j(3) have 3: "strftime_Ymd (r_dt (xs ! i)) = strftime_Ymd (r_dt (xs ! j))"
    by (simp add: row_date_key_def)
  from date_squeeze [OF 1 2 3] have "row_date_key (xs ! n) = row_date_key a"
    by (simp add: row_date_key_def i(3))
  with a assms(3) show False by blast
qed

text \<open>
  The walk cuts the sorted list in two: what it keeps, with seven day keys at most, and
  the rest, which is empty or begins an eighth day and holds no row of a day kept.
\<close>

lemma first_seven_days_split:
  fixes rows :: "row list"
  defines "srt \<equiv> sort_key (\<lambda>r. dt_key (r_dt r)) rows"
  defines "out \<equiv> first_seven_days rows"
  shows "srt = out @ drop (length out) srt"
    and "card (row_date_key ` set out) \<le> 7"
    and "length out < length srt \<Longrightarrow> card (row_date_key ` set out) = 7"
    and "length out < length srt \<Longrightarrow> row_date_key (srt ! length out) \<notin> row_date_key ` set out"
    and "row_date_key ` set out \<inter> row_date_key ` set (drop (length out) srt) = {}"
proof -
  have o: "out = keep_first_days [] [] srt"
    by (simp add: out_def srt_def first_seven_days_def)
  have t: "take (length out) srt = out"
    unfolding o by (rule walk_prefix)
  show s: "srt = out @ drop (length out) srt"
    using append_take_drop_id [of "length out" srt] t by simp
  have "card (set [] \<union> row_date_key ` set (keep_first_days [] [] srt)) \<le> 7"
    by (rule walk_card) simp_all
  then show c: "card (row_date_key ` set out) \<le> 7"
    by (simp add: o)
  have st: "row_date_key (srt ! length out) \<notin> row_date_key ` set out
      \<and> card (row_date_key ` set out) = 7" if "length out < length srt"
  proof -
    from that have "length (keep_first_days [] [] srt) < length srt" by (simp add: o)
    from walk_stop [OF _ _ this] show ?thesis by (simp add: o)
  qed
  then show "length out < length srt \<Longrightarrow> card (row_date_key ` set out) = 7"
    and n: "length out < length srt \<Longrightarrow> row_date_key (srt ! length out) \<notin> row_date_key ` set out"
    by blast+
  show "row_date_key ` set out \<inter> row_date_key ` set (drop (length out) srt) = {}"
  proof (cases "length out < length srt")
    case True
    have "sorted (map (\<lambda>r. dt_key (r_dt r)) srt)"
      unfolding srt_def by (rule sorted_sort_key)
    moreover from n [OF True] have "row_date_key (srt ! length out)
        \<notin> row_date_key ` set (take (length out) srt)"
      by (simp add: t)
    ultimately have "row_date_key ` set (take (length out) srt)
        \<inter> row_date_key ` set (drop (length out) srt) = {}"
      using True by (intro sorted_rest_new_day)
    then show ?thesis by (simp add: t)
  next
    case False
    then show ?thesis by simp
  qed
qed

lemma remdups_append_disjoint:
  "set A \<inter> set B = {} \<Longrightarrow> remdups (A @ B) = remdups A @ remdups B"
  by (induction A) auto

lemma take_seven_keys:
  assumes "set A \<inter> set B = {}" and "card (set A) \<le> 7"
    and "B \<noteq> [] \<longrightarrow> card (set A) = 7"
  shows "set (take 7 (remdups (A @ B))) = set A"
proof -
  from assms(1) have r: "remdups (A @ B) = remdups A @ remdups B"
    by (rule remdups_append_disjoint)
  have l: "length (remdups A) = card (set A)"
    by (simp add: length_remdups_card_conv)
  show ?thesis
  proof (cases "B = []")
    case True
    with assms(2) l show ?thesis by (simp add: r)
  next
    case False
    with assms(3) l have "length (remdups A) = 7" by simp
    then show ?thesis by (simp add: r)
  qed
qed

text \<open>
  C10. The rows kept are exactly the rows of the sorted list whose day key is among its
  first seven distinct day keys, and they are a prefix of the sorted list: no row of an
  admitted day is lost to the cutoff.
\<close>

theorem admitted_days_kept_whole:
  "first_seven_days rows =
     filter (\<lambda>r. row_date_key r \<in> set (take 7 (date_keys (sort_key (\<lambda>r. dt_key (r_dt r)) rows))))
       (sort_key (\<lambda>r. dt_key (r_dt r)) rows)
   \<and> take (length (first_seven_days rows)) (sort_key (\<lambda>r. dt_key (r_dt r)) rows)
       = first_seven_days rows"
proof -
  define srt where "srt = sort_key (\<lambda>r. dt_key (r_dt r)) rows"
  define out where "out = first_seven_days rows"
  define rest where "rest = drop (length out) srt"
  note sp = first_seven_days_split [of rows, folded srt_def out_def, folded rest_def]
  have s: "srt = out @ rest" by (rule sp(1))
  have tk: "take (length out) srt = out" by (simp add: s)
  let ?A = "map row_date_key out" and ?B = "map row_date_key rest"
  have d: "set ?A \<inter> set ?B = {}" using sp(5) by simp
  have c: "card (set ?A) \<le> 7" using sp(2) by simp
  have c7: "?B \<noteq> [] \<longrightarrow> card (set ?A) = 7"
  proof
    assume "?B \<noteq> []"
    then have "length out < length srt" by (simp add: s)
    from sp(3) [OF this] show "card (set ?A) = 7" by simp
  qed
  have "date_keys srt = remdups (?A @ ?B)"
    by (simp add: date_keys_def s)
  with take_seven_keys [OF d c c7] have k: "set (take 7 (date_keys srt)) = set ?A"
    by simp
  have f1: "filter (\<lambda>r. row_date_key r \<in> set ?A) out = out"
    by (simp add: filter_id_conv)
  have f2: "filter (\<lambda>r. row_date_key r \<in> set ?A) rest = []"
    using d by (auto simp: filter_empty_conv)
  have "filter (\<lambda>r. row_date_key r \<in> set ?A) (out @ rest) = out"
    using f1 f2 by (simp only: filter_append append_Nil2)
  then have "filter (\<lambda>r. row_date_key r \<in> set (take 7 (date_keys srt))) srt = out"
    by (simp only: k s [symmetric])
  with tk show ?thesis
    unfolding srt_def out_def by simp
qed

subsection \<open>The sample rows, evaluated\<close>

lemma digit_chars:
  "digit_char 0 = CHR ''0''" "digit_char 1 = CHR ''1''" "digit_char 2 = CHR ''2''"
  "digit_char 3 = CHR ''3''" "digit_char 4 = CHR ''4''" "digit_char 5 = CHR ''5''"
  "digit_char 6 = CHR ''6''" "digit_char 7 = CHR ''7''" "digit_char 8 = CHR ''8''"
  "digit_char 9 = CHR ''9''" "digit_char (Suc 0) = CHR ''1''"
  by code_simp+

lemma zero_pad_values:
  "zero_pad 4 2018 = ''2018''" "zero_pad 4 2024 = ''2024''" "zero_pad 2 0 = ''00''"
  "zero_pad 2 1 = ''01''" "zero_pad 2 2 = ''02''" "zero_pad 2 3 = ''03''"
  "zero_pad 2 4 = ''04''" "zero_pad 2 5 = ''05''" "zero_pad 2 6 = ''06''"
  "zero_pad 2 7 = ''07''" "zero_pad 2 8 = ''08''" "zero_pad 2 9 = ''09''"
  "zero_pad 2 10 = ''10''"
  "zero_pad 2 12 = ''12''" "zero_pad 2 15 = ''15''" "zero_pad 2 18 = ''18''"
  "zero_pad 2 21 = ''21''" "zero_pad 2 (Suc 0) = ''01''"
  by (simp_all add: zero_pad_def show_nat.simps digit_chars)

lemma sample_row_key:
  "row_date_key (sample_row y m d H) = zero_pad 4 y @ ''-'' @ zero_pad 2 m @ ''-'' @ zero_pad 2 d"
  by (simp add: row_date_key_def sample_row_def make_row_def strftime_Ymd_def)

lemma sample_row_Time:
  "r_Time (sample_row y m d H) = zero_pad 2 H @ '':'' @ zero_pad 2 0"
  by (simp add: sample_row_def make_row_def strftime_HM_def)

lemma sample_row_dt_key: "dt_key (r_dt (sample_row y m d H)) = (y, m, d, H, 0, 0)"
  by (simp add: sample_row_def make_row_def dt_key_def)

lemma sample_row_valid:
  "valid_row (sample_row y m d H) \<longleftrightarrow> zero_pad 2 H @ '':'' @ zero_pad 2 0 \<in> set target_times"
  by (simp add: valid_row_def sample_row_def make_row_def strftime_HM_def)

lemma sample_row_Date:
  "r_Date (sample_row y m d H) =
     FR_WEEKDAYS ! ((days_before_year y + days_before_month y m + d + 6) mod 7)
     @ '' '' @ show_nat d @ '' '' @ FR_MONTHS ! (m - 1)"
  by (simp add: sample_row_def make_row_def format_fr_date_def weekday_def toordinal_def)

lemma sample_labels:
  "r_Date (sample_row 2018 1 1 H) = ''Lundi 1 Janvier''"
  "r_Date (sample_row 2024 1 1 H) = ''Lundi 1 Janvier''"
  "r_Date (sample_row 2024 1 2 H) = ''Mardi 2 Janvier''"
  "r_Date (sample_row 2024 1 3 H) = ''Mercredi 3 Janvier''"
  "r_Date (sample_row 2024 1 4 H) = ''Jeudi 4 Janvier''"
  "r_Date (sample_row 2024 1 5 H) = ''Vendredi 5 Janvier''"
  "r_Date (sample_row 2024 1 6 H) = ''Samedi 6 Janvier''"
  by (simp_all add: sample_row_Date days_before_year_def days_before_month_def is_leap_def
      DAYS_BEFORE_MONTH_def FR_WEEKDAYS_def FR_MONTHS_def show_nat.simps digit_chars Let_def)

lemmas sample_labels_Suc = sample_labels [unfolded One_nat_def]

lemma sample_rows_valid: "list_all valid_row sample_rows"
  by (simp add: sample_rows_def sample_row_valid zero_pad_values target_times_def)

lemma sample_rows_keys:
  "map row_date_key sample_rows =
     [''2018-01-01'', ''2018-01-01'', ''2018-01-01'', ''2018-01-01'', ''2018-01-01'',
      ''2018-01-01'', ''2018-01-01'', ''2024-01-01'', ''2024-01-02'', ''2024-01-03'',
      ''2024-01-04'', ''2024-01-05'', ''2024-01-06'', ''2024-01-07'', ''2024-01-08'',
      ''2024-01-09'']"
  by (simp add: sample_rows_def sample_row_key zero_pad_values)

lemma sample_rows_sorted: "sorted (map (\<lambda>r. dt_key (r_dt r)) sample_rows)"
  by (simp add: sample_rows_def sample_row_dt_key)

lemma sample_rows_kept:
  "first_seven_days sample_rows =
     map (sample_row 2018 1 1) [6, 9, 12, 15, 18, 21, 21]
     @ map (\<lambda>d. sample_row 2024 1 d 6) [1, 2, 3, 4, 5, 6]"
proof -
  have "sort_key (\<lambda>r. dt_key (r_dt r)) sample_rows = sample_rows"
    using sample_rows_sorted by (rule sort_key_id_if_sorted)
  then have "first_seven_days sample_rows = keep_first_days [] [] sample_rows"
    by (simp add: first_seven_days_def)
  also have "\<dots> = map (sample_row 2018 1 1) [6, 9, 12, 15, 18, 21, 21]
     @ map (\<lambda>d. sample_row 2024 1 d 6) [1, 2, 3, 4, 5, 6]"
    by (simp add: sample_rows_def sample_row_key zero_pad_values Let_def)
  finally show ?thesis .
qed

text \<open>
  The claim of C3 has seven date labels and six rows a day at most for every list of
  valid records on ten days or more. The sample rows are valid and on ten days; the rows
  kept have six labels, the two Mondays 1 January sharing theirs, and the first day has
  seven rows.
\<close>

theorem sample_rows_six_labels_seven_rows:
  "list_all valid_row sample_rows
   \<and> length (date_keys sample_rows) = 10
   \<and> length (date_keys (first_seven_days sample_rows)) = 7
   \<and> length (date_labels (first_seven_days sample_rows)) = 6
   \<and> length (rows_of_day ''2018-01-01'' (first_seven_days sample_rows)) = 7"
proof -
  have a: "length (date_keys sample_rows) = 10"
    by (simp add: date_keys_def sample_rows_keys)
  have b: "length (date_keys (first_seven_days sample_rows)) = 7"
    by (simp add: date_keys_def sample_rows_kept sample_row_key zero_pad_values)
  have c: "length (date_labels (first_seven_days sample_rows)) = 6"
    by (simp add: date_labels_def sample_rows_kept sample_labels sample_labels_Suc)
  have d: "length (rows_of_day ''2018-01-01'' (first_seven_days sample_rows)) = 7"
    by (simp add: rows_of_day_def sample_rows_kept sample_row_key zero_pad_values)
  from sample_rows_valid a b c d show ?thesis by blast
qed

subsection \<open>Labels and rows of a day\<close>

lemma format_fr_date_cong:
  "dt_year a = dt_year b \<Longrightarrow> dt_month a = dt_month b \<Longrightarrow> dt_day a = dt_day b
   \<Longrightarrow> format_fr_date a = format_fr_date b"
  by (simp add: format_fr_date_def weekday_def toordinal_def)

lemma label_of_key:
  assumes "valid_row a" and "valid_row b" and "row_date_key a = row_date_key b"
  shows "r_Date a = r_Date b"
proof -
  from assms(3) have "strftime_Ymd (r_dt a) = strftime_Ymd (r_dt b)"
    by (simp add: row_date_key_def)
  from strftime_Ymd_inj [OF this]
  have "format_fr_date (r_dt a) = format_fr_date (r_dt b)"
    by (intro format_fr_date_cong) simp_all
  with assms(1,2) show ?thesis by (simp add: valid_row_def)
qed

lemma card_image_dep:
  assumes "finite S" and "\<And>a b. a \<in> S \<Longrightarrow> b \<in> S \<Longrightarrow> g a = g b \<Longrightarrow> f a = f b"
  shows "card (f ` S) \<le> card (g ` S)"
proof -
  define h where "h k = f (SOME a. a \<in> S \<and> g a = k)" for k
  have e: "f a = h (g a)" if "a \<in> S" for a
  proof -
    from that have "\<exists>x. x \<in> S \<and> g x = g a" by blast
    then have "(SOME x. x \<in> S \<and> g x = g a) \<in> S \<and> g (SOME x. x \<in> S \<and> g x = g a) = g a"
      by (rule someI_ex)
    with that assms(2) have "f (SOME x. x \<in> S \<and> g x = g a) = f a" by blast
    then show ?thesis by (simp add: h_def)
  qed
  have "f ` S \<subseteq> h ` (g ` S)"
  proof
    fix y assume "y \<in> f ` S"
    then obtain a where "a \<in> S" and "y = f a" by blast
    with e show "y \<in> h ` (g ` S)" by auto
  qed
  moreover from assms(1) have "finite (h ` (g ` S))" by simp
  ultimately have "card (f ` S) \<le> card (h ` (g ` S))" by (rule card_mono [rotated])
  also have "\<dots> \<le> card (g ` S)" using assms(1) by (intro card_image_le) simp
  finally show ?thesis .
qed

lemma distinct_map_insort_key:
  "distinct (map g (insort_key f x xs)) \<longleftrightarrow> g x \<notin> g ` set xs \<and> distinct (map g xs)"
  by (induction xs) (auto simp: set_insort_key)

lemma distinct_map_sort_key:
  "distinct (map g (sort_key f xs)) \<longleftrightarrow> distinct (map g xs)"
  by (induction xs) (simp_all add: distinct_map_insort_key)

lemma card_target_times: "card (set target_times) \<le> 6"
proof -
  have "card (set target_times) \<le> length target_times" by (rule card_length)
  then show ?thesis by (simp add: target_times_def)
qed

lemma times_of_day_bound:
  assumes "list_all (\<lambda>r. r_Time r \<in> set target_times) xs"
  shows "length (remdups (map r_Time xs)) \<le> 6"
proof -
  from assms have "set (map r_Time xs) \<subseteq> set target_times"
    by (auto simp: list_all_iff)
  then have "card (set (map r_Time xs)) \<le> card (set target_times)"
    by (intro card_mono) simp_all
  with card_target_times show ?thesis
    by (simp add: length_remdups_card_conv)
qed

lemma distinct_Pair: "distinct (map (Pair k) zs) \<Longrightarrow> distinct zs"
  by (simp add: distinct_map)

lemma rows_of_day_bound:
  assumes "distinct (map (\<lambda>r. (row_date_key r, r_Time r)) xs)"
    and "list_all (\<lambda>r. r_Time r \<in> set target_times) xs"
  shows "length (rows_of_day k xs) \<le> 6"
proof -
  let ?ys = "rows_of_day k xs"
  from assms(1) have "distinct (map (\<lambda>r. (row_date_key r, r_Time r)) ?ys)"
    unfolding rows_of_day_def by (rule distinct_map_filter)
  moreover have "map (\<lambda>r. (row_date_key r, r_Time r)) ?ys = map (Pair k) (map r_Time ?ys)"
    by (simp add: rows_of_day_def)
  ultimately have "distinct (map (Pair k) (map r_Time ?ys))" by simp
  then have d: "distinct (map r_Time ?ys)" by (rule distinct_Pair)
  from assms(2) have "list_all (\<lambda>r. r_Time r \<in> set target_times) ?ys"
    by (simp add: rows_of_day_def list_all_iff)
  then have "length (remdups (map r_Time ?ys)) \<le> 6" by (rule times_of_day_bound)
  with d show ?thesis by (simp add: distinct_remdups_id)
qed

lemma length_date_keys: "length (date_keys xs) = card (row_date_key ` set xs)"
  by (simp add: date_keys_def length_remdups_card_conv)

lemma length_date_labels: "length (date_labels xs) = card (r_Date ` set xs)"
  by (simp add: date_labels_def length_remdups_card_conv)

text \<open>
  C3, as the code has it. For valid rows on seven days or more (so on ten or more), the
  rows kept are on exactly seven days. Their date labels are seven at most, and seven when
  no two rows of different days carry the same label. They are valid rows, so that the
  times of a day are among the six, and a day has six rows at most when no two rows share
  day and time of day. They are in ascending order of time, a prefix of the sorted list,
  and the first row left out, when there is one, begins a day not seen before.
\<close>

theorem first_seven_days_table:
  assumes "list_all valid_row rows" and "7 \<le> length (date_keys rows)"
  shows "length (date_keys (first_seven_days rows)) = 7
    \<and> length (date_labels (first_seven_days rows)) \<le> 7
    \<and> (labels_tell_days rows \<longrightarrow> length (date_labels (first_seven_days rows)) = 7)
    \<and> list_all valid_row (first_seven_days rows)
    \<and> length (remdups (map r_Time (rows_of_day k (first_seven_days rows)))) \<le> 6
    \<and> (one_row_per_time rows \<longrightarrow> length (rows_of_day k (first_seven_days rows)) \<le> 6)
    \<and> sorted (map (\<lambda>r. dt_key (r_dt r)) (first_seven_days rows))
    \<and> take (length (first_seven_days rows)) (sort_key (\<lambda>r. dt_key (r_dt r)) rows)
        = first_seven_days rows
    \<and> (length (first_seven_days rows) < length rows \<longrightarrow>
          row_date_key (sort_key (\<lambda>r. dt_key (r_dt r)) rows ! length (first_seven_days rows))
            \<notin> set (date_keys (first_seven_days rows)))"
proof -
  define srt where "srt = sort_key (\<lambda>r. dt_key (r_dt r)) rows"
  define out where "out = first_seven_days rows"
  define rest where "rest = drop (length out) srt"
  note sp = first_seven_days_split [of rows, folded srt_def out_def, folded rest_def]
  have s: "srt = out @ rest" by (rule sp(1))
  have tk: "take (length out) srt = out" by (simp add: s)
  have sub: "set out \<subseteq> set rows"
  proof -
    have "set out \<subseteq> set srt" by (subst s) simp
    then show ?thesis by (simp add: srt_def)
  qed
  have len: "length srt = length rows" by (simp add: srt_def)
  \<comment> \<open>seven days\<close>
  have a: "card (row_date_key ` set out) = 7"
  proof (cases "length out < length srt")
    case True
    then show ?thesis by (rule sp(3))
  next
    case False
    with s have "rest = []" by (metis append_eq_conv_conj length_append less_add_same_cancel1 length_greater_0_conv)
    with s have "out = srt" by simp
    moreover have "set srt = set rows" by (simp add: srt_def)
    ultimately have "set out = set rows" by simp
    with assms(2) have "7 \<le> card (row_date_key ` set out)"
      by (simp add: length_date_keys)
    with sp(2) show ?thesis by simp
  qed
  \<comment> \<open>valid rows\<close>
  from assms(1) sub have v: "list_all valid_row out"
    by (auto simp: list_all_iff)
  \<comment> \<open>labels\<close>
  have b1: "card (r_Date ` set out) \<le> card (row_date_key ` set out)"
  proof (rule card_image_dep)
    show "finite (set out)" by simp
    fix x y assume "x \<in> set out" "y \<in> set out" "row_date_key x = row_date_key y"
    with v show "r_Date x = r_Date y"
      by (intro label_of_key) (auto simp: list_all_iff)
  qed
  have b2: "card (r_Date ` set out) = 7" if "labels_tell_days rows"
  proof -
    have "card (row_date_key ` set out) \<le> card (r_Date ` set out)"
    proof (rule card_image_dep)
      show "finite (set out)" by simp
      fix x y assume "x \<in> set out" "y \<in> set out" "r_Date x = r_Date y"
      with sub that show "row_date_key x = row_date_key y"
        by (auto simp: labels_tell_days_def list_all_iff)
    qed
    with a b1 show ?thesis by simp
  qed
  \<comment> \<open>rows of a day\<close>
  from v have t: "list_all (\<lambda>r. r_Time r \<in> set target_times) out"
    by (auto simp: list_all_iff valid_row_def)
  then have "list_all (\<lambda>r. r_Time r \<in> set target_times) (rows_of_day k out)"
    by (simp add: rows_of_day_def list_all_iff)
  then have c1: "length (remdups (map r_Time (rows_of_day k out))) \<le> 6"
    by (rule times_of_day_bound)
  have c2: "length (rows_of_day k out) \<le> 6" if "one_row_per_time rows"
  proof -
    from that have "distinct (map (\<lambda>r. (row_date_key r, r_Time r)) srt)"
      by (simp add: one_row_per_time_def srt_def distinct_map_sort_key)
    then have "distinct (map (\<lambda>r. (row_date_key r, r_Time r)) out)"
      by (subst (asm) s) simp
    from this t show ?thesis by (rule rows_of_day_bound)
  qed
  \<comment> \<open>order\<close>
  have "sorted (map (\<lambda>r. dt_key (r_dt r)) srt)"
    unfolding srt_def by (rule sorted_sort_key)
  then have "sorted (take (length out) (map (\<lambda>r. dt_key (r_dt r)) srt))"
    by (rule sorted_wrt_take)
  then have d: "sorted (map (\<lambda>r. dt_key (r_dt r)) out)"
    by (simp only: take_map tk)
  \<comment> \<open>the stop\<close>
  have e: "row_date_key (srt ! length out) \<notin> set (date_keys out)" if "length out < length rows"
  proof -
    from that len have "length out < length srt" by simp
    from sp(4) [OF this] show ?thesis by (simp add: date_keys_def)
  qed
  from a b1 have b: "card (r_Date ` set out) \<le> 7" by simp
  from a b b2 v c1 c2 d tk e show ?thesis
    unfolding srt_def out_def length_date_keys length_date_labels by blast
qed

lemma sample_labels_week:
  "r_Date (sample_row 2024 1 7 H) = ''Dimanche 7 Janvier''"
  "r_Date (sample_row 2024 1 8 H) = ''Lundi 8 Janvier''"
  "r_Date (sample_row 2024 1 9 H) = ''Mardi 9 Janvier''"
  "r_Date (sample_row 2024 1 10 H) = ''Mercredi 10 Janvier''"
  by (simp_all add: sample_row_Date days_before_year_def days_before_month_def is_leap_def
      DAYS_BEFORE_MONTH_def FR_WEEKDAYS_def FR_MONTHS_def show_nat.simps digit_chars Let_def)

lemmas sample_labels_week_Suc = sample_labels_week [unfolded One_nat_def]

lemma sample_week_valid: "list_all valid_row sample_week"
  by (simp add: sample_week_def sample_row_valid zero_pad_values target_times_def)

lemma sample_week_keys:
  "map row_date_key sample_week =
     [''2024-01-01'', ''2024-01-01'', ''2024-01-02'', ''2024-01-02'', ''2024-01-03'',
      ''2024-01-03'', ''2024-01-04'', ''2024-01-04'', ''2024-01-05'', ''2024-01-05'',
      ''2024-01-06'', ''2024-01-06'', ''2024-01-07'', ''2024-01-07'', ''2024-01-08'',
      ''2024-01-08'', ''2024-01-09'', ''2024-01-09'', ''2024-01-10'', ''2024-01-10'']"
  by (simp add: sample_week_def sample_row_key zero_pad_values)

lemma sample_week_days: "length (date_keys sample_week) = 10"
  by (simp add: date_keys_def sample_week_keys)

lemma sample_week_labels:
  "map r_Date sample_week =
     [''Lundi 1 Janvier'', ''Lundi 1 Janvier'', ''Mardi 2 Janvier'', ''Mardi 2 Janvier'',
      ''Mercredi 3 Janvier'', ''Mercredi 3 Janvier'', ''Jeudi 4 Janvier'', ''Jeudi 4 Janvier'',
      ''Vendredi 5 Janvier'', ''Vendredi 5 Janvier'', ''Samedi 6 Janvier'', ''Samedi 6 Janvier'',
      ''Dimanche 7 Janvier'', ''Dimanche 7 Janvier'', ''Lundi 8 Janvier'', ''Lundi 8 Janvier'',
      ''Mardi 9 Janvier'', ''Mardi 9 Janvier'', ''Mercredi 10 Janvier'', ''Mercredi 10 Janvier'']"
  by (simp add: sample_week_def sample_labels sample_labels_Suc sample_labels_week
      sample_labels_week_Suc)

lemma labels_tell_days_zip:
  "labels_tell_days rows \<longleftrightarrow>
     list_all (\<lambda>a. list_all (\<lambda>b. fst a = fst b \<longrightarrow> snd a = snd b)
        (zip (map r_Date rows) (map row_date_key rows)))
       (zip (map r_Date rows) (map row_date_key rows))"
  by (simp add: labels_tell_days_def list_all_iff zip_map_map zip_same_conv_map)

lemma sample_week_labels_tell_days: "labels_tell_days sample_week"
  unfolding labels_tell_days_zip sample_week_labels sample_week_keys by simp

lemma sample_week_one_row_per_time: "one_row_per_time sample_week"
  by (simp add: one_row_per_time_def sample_week_def sample_row_key sample_row_Time
      zero_pad_values)

lemma sample_week_sorted: "sorted (map (\<lambda>r. dt_key (r_dt r)) sample_week)"
  by (simp add: sample_week_def sample_row_dt_key)

lemma sample_week_kept: "first_seven_days sample_week = take 14 sample_week"
proof -
  have "sort_key (\<lambda>r. dt_key (r_dt r)) sample_week = sample_week"
    using sample_week_sorted by (rule sort_key_id_if_sorted)
  then have "first_seven_days sample_week = keep_first_days [] [] sample_week"
    by (simp add: first_seven_days_def)
  also have "\<dots> = take 14 sample_week"
    by (simp add: sample_week_def sample_row_key zero_pad_values Let_def)
  finally show ?thesis .
qed

theorem first_seven_days_table_witness:
  "length (date_keys sample_week) = 10
   \<and> length (first_seven_days sample_week) = 14
   \<and> length (date_keys (first_seven_days sample_week)) = 7
   \<and> length (date_labels (first_seven_days sample_week)) = 7
   \<and> length (rows_of_day ''2024-01-03'' (first_seven_days sample_week)) \<le> 6
   \<and> row_date_key (sort_key (\<lambda>r. dt_key (r_dt r)) sample_week ! 14)
        \<notin> set (date_keys (first_seven_days sample_week))"
proof -
  have h2: "7 \<le> length (date_keys sample_week)"
    by (simp add: sample_week_days)
  have l: "length (first_seven_days sample_week) = 14"
    by (simp only: sample_week_kept) (simp add: sample_week_def)
  have n: "length sample_week = 20"
    by (simp add: sample_week_def)
  from first_seven_days_table [OF sample_week_valid h2, of "''2024-01-03''"]
    sample_week_labels_tell_days sample_week_one_row_per_time sample_week_days l n
  show ?thesis by simp
qed

end
